theory Spec2Isabelle
  imports Complex_Main "HOL-Library.AList" "HOL-Library.Multiset"
begin

section \<open>Cache Manager\<close>

subsection \<open>Data model\<close>

text \<open>
  \<^verbatim>\<open>interface CacheEntry<T> { data: T; timestamp: number; accessCount: number }\<close>

  Timestamps are readings of \<^verbatim>\<open>Date.now()\<close>: integral milliseconds. The access count starts
  at 1 and is only ever incremented, so it is a natural number. Both stay far below \<open>2^53\<close>,
  where the additions and subtractions of the source are exact.
\<close>

record 'a CacheEntry =
  data :: 'a
  timestamp :: int
  accessCount :: nat

text \<open>
  A JavaScript \<^verbatim>\<open>Map\<close> iterates in insertion order and holds each key once, and the
  eviction sorts \<^verbatim>\<open>Array.from(cache.entries())\<close> with a stable sort, so the order of the
  entries is observable. A collection is therefore an association list in insertion order:
  \<^verbatim>\<open>get\<close> is \<^const>\<open>map_of\<close>, \<^verbatim>\<open>set\<close> is \<^const>\<open>AList.update\<close> (an existing key
  keeps its position, a new key goes to the end), \<^verbatim>\<open>delete\<close> is \<^const>\<open>AList.delete\<close>.
\<close>

type_synonym ('k, 'a) cache = "('k \<times> 'a CacheEntry) list"

record ('r, 's) CacheManager =
  recipeCache :: "(int, 'r) cache"
  searchCache :: "(string, 's) cache"
  cacheExpiry :: int
  maxCacheSize :: int

text \<open>The only place of the class where the source can throw: indexing past the end of
  the sorted array in the eviction loop (\<^verbatim>\<open>entries[i][0]\<close> with \<^verbatim>\<open>entries[i]\<close> undefined).\<close>

datatype error = TypeError

subsection \<open>Constructor\<close>

text \<open>
  \<^verbatim>\<open>this.cacheExpiry = options.ttl || 5 * 60 * 1000;\<close>
  \<^verbatim>\<open>this.maxCacheSize = options.maxSize || 1000;\<close>

  An option that is left out is \<open>None\<close>. \<^verbatim>\<open>||\<close> takes its right operand when the left one
  is falsy, which for an integer means \<^verbatim>\<open>undefined\<close> or \<open>0\<close>.
\<close>

definition falsy_or :: "int option \<Rightarrow> int \<Rightarrow> int" where
  "falsy_or x d = (case x of None \<Rightarrow> d | Some v \<Rightarrow> if v = 0 then d else v)"

definition constructor :: "int option \<Rightarrow> int option \<Rightarrow> ('r, 's) CacheManager" where
  "constructor ttl maxSize =
     \<lparr> recipeCache = [], searchCache = [],
       cacheExpiry = falsy_or ttl (5 * 60 * 1000),
       maxCacheSize = falsy_or maxSize 1000 \<rparr>"

subsection \<open>Lookup\<close>

text \<open>\<^verbatim>\<open>return Date.now() - entry.timestamp < this.cacheExpiry;\<close>
  The clock reading \<open>now\<close> is an argument of every operation that reads the clock. A
  call that reads the clock several times (the comparator of the eviction sort, then the
  timestamp of the new entry) has the same reading each time: a call is synchronous, and
  the model gives it one reading.\<close>

definition isValid :: "int \<Rightarrow> int \<Rightarrow> 'a CacheEntry \<Rightarrow> bool" where
  "isValid expiry now entry \<longleftrightarrow> now - timestamp entry < expiry"

text \<open>
  The bodies of \<^verbatim>\<open>getCachedRecipe\<close> and \<^verbatim>\<open>getCachedSearch\<close> are the same text on the two
  collections; \<open>lookup\<close> is that body on one collection. It returns the result
  (\<open>None\<close> for \<^verbatim>\<open>null\<close>) and the collection after the call.
\<close>

definition lookup :: "int \<Rightarrow> int \<Rightarrow> 'k \<Rightarrow> ('k, 'a) cache \<Rightarrow> 'a option \<times> ('k, 'a) cache" where
  "lookup expiry now key cache =
     (case map_of cache key of
        None \<Rightarrow> (None, cache)
      | Some cached \<Rightarrow>
          if isValid expiry now cached
          then (Some (data cached),
                AList.update key (cached\<lparr>accessCount := accessCount cached + 1\<rparr>) cache)
          else (None, AList.delete key cache))"

definition getCachedRecipe ::
  "int \<Rightarrow> int \<Rightarrow> ('r, 's) CacheManager \<Rightarrow> 'r option \<times> ('r, 's) CacheManager" where
  "getCachedRecipe now recipe_id m =
     (let (res, c) = lookup (cacheExpiry m) now recipe_id (recipeCache m)
      in (res, m\<lparr>recipeCache := c\<rparr>))"

definition getCachedSearch ::
  "int \<Rightarrow> string \<Rightarrow> ('r, 's) CacheManager \<Rightarrow> 's option \<times> ('r, 's) CacheManager" where
  "getCachedSearch now query m =
     (let (res, c) = lookup (cacheExpiry m) now query (searchCache m)
      in (res, m\<lparr>searchCache := c\<rparr>))"

subsection \<open>Eviction\<close>

text \<open>
  The score \<^verbatim>\<open>accessCount / (Date.now() - timestamp)\<close> is an IEEE double. Dividing a
  positive count by an age of \<open>0\<close> gives \<^verbatim>\<open>Infinity\<close>, \<open>0 / 0\<close> gives \<^verbatim>\<open>NaN\<close>, and any other
  quotient is the exact one rounded to a double. The rounding \<open>fl\<close> is kept as a parameter,
  so that nothing proved below depends on it.
\<close>

datatype jsnum = NaN | NegInf | Num rat | PosInf

definition score :: "(rat \<Rightarrow> rat) \<Rightarrow> int \<Rightarrow> 'a CacheEntry \<Rightarrow> jsnum" where
  "score fl now e =
     (let age = now - timestamp e
      in if age = 0 then (if accessCount e = 0 then NaN else PosInf)
         else Num (fl (of_nat (accessCount e) / of_int age)))"

text \<open>\<^verbatim>\<open>scoreA - scoreB\<close>: only the sign of a finite difference is used, and the sign of the
  rounded difference of two doubles is the sign of the exact one.\<close>

fun js_sub :: "jsnum \<Rightarrow> jsnum \<Rightarrow> jsnum" where
  "js_sub NaN _ = NaN"
| "js_sub _ NaN = NaN"
| "js_sub (Num a) (Num b) = Num (a - b)"
| "js_sub (Num a) PosInf = NegInf"
| "js_sub (Num a) NegInf = PosInf"
| "js_sub PosInf (Num b) = PosInf"
| "js_sub NegInf (Num b) = NegInf"
| "js_sub PosInf NegInf = PosInf"
| "js_sub NegInf PosInf = NegInf"
| "js_sub PosInf PosInf = NaN"
| "js_sub NegInf NegInf = NaN"

text \<open>\<^verbatim>\<open>Array.prototype.sort\<close> puts \<open>a\<close> after \<open>b\<close> when the comparator's result is positive;
  a \<^verbatim>\<open>NaN\<close> result counts as \<open>0\<close>.\<close>

fun js_positive :: "jsnum \<Rightarrow> bool" where
  "js_positive (Num q) = (0 < q)"
| "js_positive PosInf = True"
| "js_positive _ = False"

text \<open>
  The sort is stable. For a comparator that is a consistent one (a total preorder), every
  stable sort returns the same array, the one of this insertion sort: an element is put
  before the first element it is not greater than, elements taken from the right.
\<close>

fun insort_cmp :: "('a \<Rightarrow> 'a \<Rightarrow> jsnum) \<Rightarrow> 'a \<Rightarrow> 'a list \<Rightarrow> 'a list" where
  "insort_cmp cmp x [] = [x]"
| "insort_cmp cmp x (y # ys) =
     (if js_positive (cmp x y) then y # insort_cmp cmp x ys else x # y # ys)"

definition sort_cmp :: "('a \<Rightarrow> 'a \<Rightarrow> jsnum) \<Rightarrow> 'a list \<Rightarrow> 'a list" where
  "sort_cmp cmp xs = foldr (insort_cmp cmp) xs []"

text \<open>\<^verbatim>\<open>for (let i = 0; i < toRemove; i++) cache.delete(entries[i][0]);\<close>
  The loop walks the sorted array from its head, \<open>n\<close> iterations left.\<close>

fun delete_first :: "nat \<Rightarrow> ('k \<times> 'v) list \<Rightarrow> ('k \<times> 'v) list \<Rightarrow> error + ('k \<times> 'v) list" where
  "delete_first 0 entries cache = Inr cache"
| "delete_first (Suc n) [] cache = Inl TypeError"
| "delete_first (Suc n) (e # entries) cache = delete_first n entries (AList.delete (fst e) cache)"

definition score_cmp ::
  "(rat \<Rightarrow> rat) \<Rightarrow> int \<Rightarrow> 'k \<times> 'a CacheEntry \<Rightarrow> 'k \<times> 'a CacheEntry \<Rightarrow> jsnum" where
  "score_cmp fl now a b = js_sub (score fl now (snd a)) (score fl now (snd b))"

text \<open>\<^verbatim>\<open>Math.floor(this.maxCacheSize * 0.25)\<close> is \<open>maxCacheSize div 4\<close>: the product with a power
  of two is exact, and \<open>div\<close> on \<open>int\<close> rounds down.\<close>

definition evictIfNeeded ::
  "(rat \<Rightarrow> rat) \<Rightarrow> int \<Rightarrow> int \<Rightarrow> ('k, 'a) cache \<Rightarrow> error + ('k, 'a) cache" where
  "evictIfNeeded fl maxSize now cache =
     (if int (length cache) \<ge> maxSize
      then let entries = sort_cmp (score_cmp fl now) cache;
               toRemove = maxSize div 4
           in delete_first (nat toRemove) entries cache
      else Inr cache)"

subsection \<open>Insertion\<close>

text \<open>The body shared by \<^verbatim>\<open>setCachedRecipe\<close> and \<^verbatim>\<open>setCachedSearch\<close>, on one collection.\<close>

definition store ::
  "(rat \<Rightarrow> rat) \<Rightarrow> int \<Rightarrow> int \<Rightarrow> 'k \<Rightarrow> 'a \<Rightarrow> ('k, 'a) cache \<Rightarrow> error + ('k, 'a) cache" where
  "store fl maxSize now key d cache =
     (case evictIfNeeded fl maxSize now cache of
        Inl e \<Rightarrow> Inl e
      | Inr c \<Rightarrow> Inr (AList.update key \<lparr>data = d, timestamp = now, accessCount = 1\<rparr> c))"

definition setCachedRecipe ::
  "(rat \<Rightarrow> rat) \<Rightarrow> int \<Rightarrow> int \<Rightarrow> 'r \<Rightarrow> ('r, 's) CacheManager \<Rightarrow> error + ('r, 's) CacheManager" where
  "setCachedRecipe fl now recipe_id d m =
     (case store fl (maxCacheSize m) now recipe_id d (recipeCache m) of
        Inl e \<Rightarrow> Inl e
      | Inr c \<Rightarrow> Inr (m\<lparr>recipeCache := c\<rparr>))"

definition setCachedSearch ::
  "(rat \<Rightarrow> rat) \<Rightarrow> int \<Rightarrow> string \<Rightarrow> 's \<Rightarrow> ('r, 's) CacheManager \<Rightarrow> error + ('r, 's) CacheManager" where
  "setCachedSearch fl now query d m =
     (case store fl (maxCacheSize m) now query d (searchCache m) of
        Inl e \<Rightarrow> Inl e
      | Inr c \<Rightarrow> Inr (m\<lparr>searchCache := c\<rparr>))"

subsection \<open>Statistics and clearing\<close>

record stats =
  recipeCacheSize :: nat
  searchCacheSize :: nat
  recipeCacheHits :: nat
  searchCacheHits :: nat

definition getStats :: "('r, 's) CacheManager \<Rightarrow> stats" where
  "getStats m =
     \<lparr> recipeCacheSize = length (recipeCache m),
       searchCacheSize = length (searchCache m),
       recipeCacheHits = foldl (\<lambda>sum entry. sum + accessCount entry) 0 (map snd (recipeCache m)),
       searchCacheHits = foldl (\<lambda>sum entry. sum + accessCount entry) 0 (map snd (searchCache m)) \<rparr>"

definition clear :: "('r, 's) CacheManager \<Rightarrow> ('r, 's) CacheManager" where
  "clear m = m\<lparr>recipeCache := [], searchCache := []\<rparr>"

subsection \<open>Sequences of operations\<close>

text \<open>A client of the class calls its public methods one after the other, each at some
  clock reading. A call that throws ends the run.\<close>

datatype ('r, 's) operation =
    GetRecipe int
  | SetRecipe int 'r
  | GetSearch string
  | SetSearch string 's
  | GetStats
  | Clear

fun perform ::
  "(rat \<Rightarrow> rat) \<Rightarrow> int \<Rightarrow> ('r, 's) operation \<Rightarrow> ('r, 's) CacheManager
     \<Rightarrow> error + ('r, 's) CacheManager" where
  "perform fl now (GetRecipe k) m = Inr (snd (getCachedRecipe now k m))"
| "perform fl now (SetRecipe k d) m = setCachedRecipe fl now k d m"
| "perform fl now (GetSearch q) m = Inr (snd (getCachedSearch now q m))"
| "perform fl now (SetSearch q d) m = setCachedSearch fl now q d m"
| "perform fl now GetStats m = Inr m"
| "perform fl now Clear m = Inr (clear m)"

fun run ::
  "(rat \<Rightarrow> rat) \<Rightarrow> (int \<times> ('r, 's) operation) list \<Rightarrow> ('r, 's) CacheManager
     \<Rightarrow> error + ('r, 's) CacheManager" where
  "run fl [] m = Inr m"
| "run fl ((now, op) # rest) m =
     (case perform fl now op m of Inl e \<Rightarrow> Inl e | Inr m' \<Rightarrow> run fl rest m')"

fun inserts_recipe :: "int \<Rightarrow> ('r, 's) operation \<Rightarrow> bool" where
  "inserts_recipe k (SetRecipe k' d) = (k = k')"
| "inserts_recipe k _ = False"

fun inserts_search :: "string \<Rightarrow> ('r, 's) operation \<Rightarrow> bool" where
  "inserts_search q (SetSearch q' d) = (q = q')"
| "inserts_search q _ = False"

subsection \<open>Well-formed collections\<close>

text \<open>A \<^verbatim>\<open>Map\<close> holds a key once, and every entry the class creates has a count of at
  least 1 (it starts at 1 and is only incremented).\<close>

definition cache_ok :: "('k, 'a) cache \<Rightarrow> bool" where
  "cache_ok cache \<longleftrightarrow> distinct (map fst cache) \<and> list_all (\<lambda>p. 1 \<le> accessCount (snd p)) cache"

text \<open>Both collections well-formed and within the configured capacity.\<close>

definition bounded :: "('r, 's) CacheManager \<Rightarrow> bool" where
  "bounded m \<longleftrightarrow> cache_ok (recipeCache m) \<and> cache_ok (searchCache m)
     \<and> int (length (recipeCache m)) \<le> maxCacheSize m
     \<and> int (length (searchCache m)) \<le> maxCacheSize m"

text \<open>The order of scores, \<^verbatim>\<open>a <= b\<close> on JavaScript numbers.\<close>

fun js_le :: "jsnum \<Rightarrow> jsnum \<Rightarrow> bool" where
  "js_le NaN _ = False"
| "js_le _ NaN = False"
| "js_le NegInf _ = True"
| "js_le _ PosInf = True"
| "js_le (Num a) (Num b) = (a \<le> b)"
| "js_le _ _ = False"

section \<open>Query parser: merging parsed facets into the caller's arguments\<close>

text \<open>
  \<^verbatim>\<open>interface ParsedQuery\<close>: an optional field is an \<open>option\<close>. String-valued fields are
  strings, also the ones the interface restricts to a few literals, because
  \<^verbatim>\<open>enhanceSearchArgs\<close> tests them for truthiness only.
\<close>

record ParsedQuery =
  strength :: "string option"
  flavors :: "string list"
  spirit :: "string option"
  glass :: "string option"
  excludes :: "string list"
  ingredients :: "string list"
  method' :: "string option"
  difficulty :: "string option"
  mood :: "string option"
  occasion :: "string option"

text \<open>
  \<^verbatim>\<open>args: any\<close>: the fields the function reads or writes; every other property of the
  object is in the extension part of the record, which \<^verbatim>\<open>{ ...args }\<close> copies.
\<close>

record SearchArgs =
  preferred_strength :: "string option"
  preferred_flavors :: "string list option"
  must_include :: "string list option"
  must_exclude :: "string list option"
  glass_type :: "string option"
  preparation_method :: "string option"

text \<open>Truthiness: a missing property and the empty string are falsy, an array is truthy.\<close>

definition truthy :: "string option \<Rightarrow> bool" where
  "truthy x = (case x of None \<Rightarrow> False | Some s \<Rightarrow> s \<noteq> [])"

text \<open>\<^verbatim>\<open>args.must_include || []\<close>\<close>

definition or_empty :: "string list option \<Rightarrow> string list" where
  "or_empty x = (case x of None \<Rightarrow> [] | Some xs \<Rightarrow> xs)"

definition enhanceSearchArgs :: "'z SearchArgs_scheme \<Rightarrow> ParsedQuery \<Rightarrow> 'z SearchArgs_scheme" where
  "enhanceSearchArgs args parsedQuery =
     (let enhanced = args;
          enhanced = (if truthy (strength parsedQuery) \<and> \<not> truthy (preferred_strength args)
                      then enhanced\<lparr>preferred_strength := strength parsedQuery\<rparr>
                      else enhanced);
          enhanced = (if length (flavors parsedQuery) > 0 \<and> preferred_flavors args = None
                      then enhanced\<lparr>preferred_flavors := Some (flavors parsedQuery)\<rparr>
                      else enhanced);
          enhanced = (if length (ingredients parsedQuery) > 0
                      then enhanced\<lparr>must_include :=
                             Some (or_empty (must_include args) @ ingredients parsedQuery)\<rparr>
                      else enhanced);
          enhanced = (if length (excludes parsedQuery) > 0
                      then enhanced\<lparr>must_exclude :=
                             Some (or_empty (must_exclude args) @ excludes parsedQuery)\<rparr>
                      else enhanced);
          enhanced = (if truthy (glass parsedQuery) \<and> \<not> truthy (glass_type args)
                      then enhanced\<lparr>glass_type := glass parsedQuery\<rparr>
                      else enhanced);
          enhanced = (if truthy (method' parsedQuery) \<and> \<not> truthy (preparation_method args)
                      then enhanced\<lparr>preparation_method := method' parsedQuery\<rparr>
                      else enhanced)
      in enhanced)"

section \<open>Constructor defaults\<close>

lemma falsy_or_zero: "falsy_or (Some 0) d = d"
  by (simp add: falsy_or_def)

lemma falsy_or_nonzero: "d \<noteq> 0 \<Longrightarrow> falsy_or x d \<noteq> 0"
  by (simp add: falsy_or_def split: option.split)

text \<open>
  C10. An explicit \<open>ttl\<close> of 0 gives the default expiry of 300000 ms and an explicit
  \<open>maxSize\<close> of 0 gives the default capacity of 1000, whatever the other option is; no
  options at all make the constructor produce an expiry of 0 or a capacity of 0.
\<close>

theorem constructor_zero_is_default:
  "cacheExpiry (constructor (Some 0) maxSize :: ('r, 's) CacheManager) = 300000
   \<and> maxCacheSize (constructor ttl (Some 0) :: ('r, 's) CacheManager) = 1000
   \<and> cacheExpiry (constructor ttl maxSize :: ('r, 's) CacheManager) \<noteq> 0
   \<and> maxCacheSize (constructor ttl maxSize :: ('r, 's) CacheManager) \<noteq> 0"
  by (simp add: constructor_def falsy_or_zero falsy_or_nonzero)

section \<open>Lookup and insertion on one collection\<close>

lemma lookup_absent: "map_of cache key = None \<Longrightarrow> lookup expiry now key cache = (None, cache)"
  by (simp add: lookup_def)

lemma lookup_valid:
  "map_of cache key = Some e \<Longrightarrow> isValid expiry now e \<Longrightarrow>
   lookup expiry now key cache =
     (Some (data e), AList.update key (e\<lparr>accessCount := accessCount e + 1\<rparr>) cache)"
  by (simp add: lookup_def)

lemma lookup_expired:
  "map_of cache key = Some e \<Longrightarrow> \<not> isValid expiry now e \<Longrightarrow>
   lookup expiry now key cache = (None, AList.delete key cache)"
  by (simp add: lookup_def)

lemma lookup_other:
  "k' \<noteq> k \<Longrightarrow> map_of (snd (lookup expiry now k' cache)) k = map_of cache k"
  by (simp add: lookup_def update_conv' delete_conv' split: option.split)

lemma length_delete_less:
  "map_of al k = Some v \<Longrightarrow> length (AList.delete k al) < length al"
proof (induction al)
  case Nil
  then show ?case by simp
next
  case (Cons p ps)
  show ?case
  proof (cases "fst p = k")
    case True
    have "length (AList.delete k ps) \<le> length ps" by (rule length_delete_le)
    with True show ?thesis by (cases p) (simp add: le_imp_less_Suc)
  next
    case False
    with Cons show ?thesis by (cases p) auto
  qed
qed

lemma map_of_delete_same: "map_of (AList.delete k al) k = None"
  by (simp add: delete_conv')

lemma map_of_update_other: "k' \<noteq> k \<Longrightarrow> map_of (AList.update k v al) k' = map_of al k'"
  by (simp add: update_conv')

subsection \<open>The sort keeps the entries\<close>

lemma length_insort_cmp: "length (insort_cmp cmp x ys) = Suc (length ys)"
  by (induction ys) auto

lemma length_sort_cmp: "length (sort_cmp cmp xs) = length xs"
  by (induction xs) (auto simp: sort_cmp_def length_insort_cmp)

lemma mset_insort_cmp: "mset (insort_cmp cmp x ys) = add_mset x (mset ys)"
  by (induction ys) auto

lemma mset_sort_cmp: "mset (sort_cmp cmp xs) = mset xs"
  by (induction xs) (auto simp: sort_cmp_def mset_insort_cmp)

subsection \<open>The eviction loop stays inside the sorted array\<close>

lemma delete_first_total:
  "n \<le> length entries \<Longrightarrow> \<exists>c. delete_first n entries cache = Inr c"
  by (induction n entries cache rule: delete_first.induct) auto

lemma evictIfNeeded_total: "\<exists>c. evictIfNeeded fl maxSize now cache = Inr c"
proof (cases "maxSize \<le> int (length cache)")
  case True
  then have "nat (maxSize div 4) \<le> length (sort_cmp (score_cmp fl now) cache)"
    by (simp add: length_sort_cmp)
  from delete_first_total[OF this] show ?thesis
    using True by (simp add: evictIfNeeded_def Let_def)
next
  case False
  then show ?thesis by (simp add: evictIfNeeded_def)
qed

lemma evictIfNeeded_below: "int (length cache) < maxSize \<Longrightarrow> evictIfNeeded fl maxSize now cache = Inr cache"
  by (simp add: evictIfNeeded_def)

lemma store_result:
  "\<exists>c. evictIfNeeded fl maxSize now cache = Inr c \<and>
       store fl maxSize now key d cache =
         Inr (AList.update key \<lparr>data = d, timestamp = now, accessCount = 1\<rparr> c)"
  using evictIfNeeded_total[of fl maxSize now cache] by (auto simp: store_def)

lemma store_entry:
  "\<exists>c. store fl maxSize now key d cache = Inr c \<and>
       map_of c key = Some \<lparr>data = d, timestamp = now, accessCount = 1\<rparr>"
  using store_result[of fl maxSize now cache key d] by (auto simp: update_conv')

section \<open>The methods of the class\<close>

lemma getCachedRecipe_absent:
  "map_of (recipeCache m) k = None \<Longrightarrow> getCachedRecipe now k m = (None, m)"
  by (simp add: getCachedRecipe_def lookup_absent)

lemma getCachedSearch_absent:
  "map_of (searchCache m) q = None \<Longrightarrow> getCachedSearch now q m = (None, m)"
  by (simp add: getCachedSearch_def lookup_absent)

lemma getCachedRecipe_valid:
  "map_of (recipeCache m) k = Some e \<Longrightarrow> isValid (cacheExpiry m) now e \<Longrightarrow>
   getCachedRecipe now k m =
     (Some (data e),
      m\<lparr>recipeCache := AList.update k (e\<lparr>accessCount := accessCount e + 1\<rparr>) (recipeCache m)\<rparr>)"
  by (simp add: getCachedRecipe_def lookup_valid)

lemma getCachedSearch_valid:
  "map_of (searchCache m) q = Some e \<Longrightarrow> isValid (cacheExpiry m) now e \<Longrightarrow>
   getCachedSearch now q m =
     (Some (data e),
      m\<lparr>searchCache := AList.update q (e\<lparr>accessCount := accessCount e + 1\<rparr>) (searchCache m)\<rparr>)"
  by (simp add: getCachedSearch_def lookup_valid)

lemma getCachedRecipe_expired:
  "map_of (recipeCache m) k = Some e \<Longrightarrow> \<not> isValid (cacheExpiry m) now e \<Longrightarrow>
   getCachedRecipe now k m = (None, m\<lparr>recipeCache := AList.delete k (recipeCache m)\<rparr>)"
  by (simp add: getCachedRecipe_def lookup_expired)

lemma getCachedSearch_expired:
  "map_of (searchCache m) q = Some e \<Longrightarrow> \<not> isValid (cacheExpiry m) now e \<Longrightarrow>
   getCachedSearch now q m = (None, m\<lparr>searchCache := AList.delete q (searchCache m)\<rparr>)"
  by (simp add: getCachedSearch_def lookup_expired)

lemma setCachedRecipe_result:
  "\<exists>c. evictIfNeeded fl (maxCacheSize m) now (recipeCache m) = Inr c \<and>
       setCachedRecipe fl now k d m =
         Inr (m\<lparr>recipeCache := AList.update k \<lparr>data = d, timestamp = now, accessCount = 1\<rparr> c\<rparr>)"
  using store_result[of fl "maxCacheSize m" now "recipeCache m" k d]
  by (auto simp: setCachedRecipe_def)

lemma setCachedSearch_result:
  "\<exists>c. evictIfNeeded fl (maxCacheSize m) now (searchCache m) = Inr c \<and>
       setCachedSearch fl now q d m =
         Inr (m\<lparr>searchCache := AList.update q \<lparr>data = d, timestamp = now, accessCount = 1\<rparr> c\<rparr>)"
  using store_result[of fl "maxCacheSize m" now "searchCache m" q d]
  by (auto simp: setCachedSearch_def)

lemma recipe_set_get:
  assumes "t1 - t0 < cacheExpiry m"
  shows "\<exists>m1. setCachedRecipe fl t0 k v m = Inr m1
      \<and> map_of (recipeCache m1) k = Some \<lparr>data = v, timestamp = t0, accessCount = 1\<rparr>
      \<and> fst (getCachedRecipe t1 k m1) = Some v
      \<and> map_of (recipeCache (snd (getCachedRecipe t1 k m1))) k
          = Some \<lparr>data = v, timestamp = t0, accessCount = 2\<rparr>"
proof -
  let ?e = "\<lparr>data = v, timestamp = t0, accessCount = 1\<rparr>"
  from setCachedRecipe_result[of fl m t0 k v] obtain c where
    s: "setCachedRecipe fl t0 k v m = Inr (m\<lparr>recipeCache := AList.update k ?e c\<rparr>)"
    by blast
  let ?m1 = "m\<lparr>recipeCache := AList.update k ?e c\<rparr>"
  have e: "map_of (recipeCache ?m1) k = Some ?e" by (simp add: update_conv')
  have v: "isValid (cacheExpiry ?m1) t1 ?e" using assms by (simp add: isValid_def)
  show ?thesis
    using s e getCachedRecipe_valid[OF e v] by (simp add: update_conv')
qed

lemma search_set_get:
  assumes "t1 - t0 < cacheExpiry m"
  shows "\<exists>m1. setCachedSearch fl t0 q v m = Inr m1
      \<and> map_of (searchCache m1) q = Some \<lparr>data = v, timestamp = t0, accessCount = 1\<rparr>
      \<and> fst (getCachedSearch t1 q m1) = Some v
      \<and> map_of (searchCache (snd (getCachedSearch t1 q m1))) q
          = Some \<lparr>data = v, timestamp = t0, accessCount = 2\<rparr>"
proof -
  let ?e = "\<lparr>data = v, timestamp = t0, accessCount = 1\<rparr>"
  from setCachedSearch_result[of fl m t0 q v] obtain c where
    s: "setCachedSearch fl t0 q v m = Inr (m\<lparr>searchCache := AList.update q ?e c\<rparr>)"
    by blast
  let ?m1 = "m\<lparr>searchCache := AList.update q ?e c\<rparr>"
  have e: "map_of (searchCache ?m1) q = Some ?e" by (simp add: update_conv')
  have v: "isValid (cacheExpiry ?m1) t1 ?e" using assms by (simp add: isValid_def)
  show ?thesis
    using s e getCachedSearch_valid[OF e v] by (simp add: update_conv')
qed

section \<open>Reading back what was stored\<close>

text \<open>
  C1. For every key and value, a \<open>set\<close> at time \<open>t0\<close> succeeds and leaves an entry with
  that value, timestamp \<open>t0\<close> and \<open>accessCount = 1\<close>; a \<open>get\<close> of the key at a time \<open>t1\<close> with
  \<open>t1 - t0\<close> below the TTL returns the value and leaves the count at 2. In any state, a
  \<open>get\<close> of a key whose entry is valid returns the entry's data and adds exactly 1 to its
  count. All of it holds for the recipe collection and for the search collection.
\<close>

theorem get_after_set:
  fixes m :: "('r, 's) CacheManager"
  shows "(t1 - t0 < cacheExpiry m \<longrightarrow>
          (\<exists>m1. setCachedRecipe fl t0 k v m = Inr m1
             \<and> map_of (recipeCache m1) k = Some \<lparr>data = v, timestamp = t0, accessCount = 1\<rparr>
             \<and> fst (getCachedRecipe t1 k m1) = Some v
             \<and> map_of (recipeCache (snd (getCachedRecipe t1 k m1))) k
                 = Some \<lparr>data = v, timestamp = t0, accessCount = 2\<rparr>)
        \<and> (\<exists>m1. setCachedSearch fl t0 q w m = Inr m1
             \<and> map_of (searchCache m1) q = Some \<lparr>data = w, timestamp = t0, accessCount = 1\<rparr>
             \<and> fst (getCachedSearch t1 q m1) = Some w
             \<and> map_of (searchCache (snd (getCachedSearch t1 q m1))) q
                 = Some \<lparr>data = w, timestamp = t0, accessCount = 2\<rparr>))
     \<and> (map_of (recipeCache m) k = Some e \<and> isValid (cacheExpiry m) t e \<longrightarrow>
          fst (getCachedRecipe t k m) = Some (data e)
          \<and> map_of (recipeCache (snd (getCachedRecipe t k m))) k
              = Some (e\<lparr>accessCount := accessCount e + 1\<rparr>))
     \<and> (map_of (searchCache m) q = Some e' \<and> isValid (cacheExpiry m) t e' \<longrightarrow>
          fst (getCachedSearch t q m) = Some (data e')
          \<and> map_of (searchCache (snd (getCachedSearch t q m))) q
              = Some (e'\<lparr>accessCount := accessCount e' + 1\<rparr>))"
  using recipe_set_get[of t1 t0 m fl k v] search_set_get[of t1 t0 m fl q w]
  by (simp add: getCachedRecipe_valid getCachedSearch_valid update_conv')

theorem get_after_set_witness:
  "(2000::int) - 1000
     < cacheExpiry (\<lparr>recipeCache = [(7, \<lparr>data = ''old'', timestamp = 500, accessCount = 3\<rparr>)],
                     searchCache = [(''gin'', \<lparr>data = ''hits'', timestamp = 600, accessCount = 1\<rparr>)],
                     cacheExpiry = 300000, maxCacheSize = 1000\<rparr>)
   \<and> (\<exists>m1. setCachedRecipe (\<lambda>x. x) 1000 7 ''negroni''
              \<lparr>recipeCache = [(7, \<lparr>data = ''old'', timestamp = 500, accessCount = 3\<rparr>)],
               searchCache = [(''gin'', \<lparr>data = ''hits'', timestamp = 600, accessCount = 1\<rparr>)],
               cacheExpiry = 300000, maxCacheSize = 1000\<rparr> = Inr m1
          \<and> fst (getCachedRecipe 2000 7 m1) = Some ''negroni''
          \<and> map_of (recipeCache (snd (getCachedRecipe 2000 7 m1))) 7
              = Some \<lparr>data = ''negroni'', timestamp = 1000, accessCount = 2\<rparr>)
   \<and> isValid 300000 2000 \<lparr>data = ''old'', timestamp = 500, accessCount = 3\<rparr>
   \<and> map_of (recipeCache (snd (getCachedRecipe 2000 7
              \<lparr>recipeCache = [(7, \<lparr>data = ''old'', timestamp = 500, accessCount = 3\<rparr>)],
               searchCache = [(''gin'', \<lparr>data = ''hits'', timestamp = 600, accessCount = 1\<rparr>)],
               cacheExpiry = 300000, maxCacheSize = 1000\<rparr>))) 7
        = Some \<lparr>data = ''old'', timestamp = 500, accessCount = 4\<rparr>
   \<and> isValid 300000 2000 \<lparr>data = ''hits'', timestamp = 600, accessCount = 1\<rparr>
   \<and> map_of (searchCache (snd (getCachedSearch 2000 ''gin''
              \<lparr>recipeCache = [(7, \<lparr>data = ''old'', timestamp = 500, accessCount = 3\<rparr>)],
               searchCache = [(''gin'', \<lparr>data = ''hits'', timestamp = 600, accessCount = 1\<rparr>)],
               cacheExpiry = 300000, maxCacheSize = 1000\<rparr>))) ''gin''
        = Some \<lparr>data = ''hits'', timestamp = 600, accessCount = 2\<rparr>"
  using get_after_set[where m = "\<lparr>recipeCache = [(7, \<lparr>data = ''old'', timestamp = 500, accessCount = 3\<rparr>)],
               searchCache = [(''gin'', \<lparr>data = ''hits'', timestamp = 600, accessCount = 1\<rparr>)],
               cacheExpiry = 300000, maxCacheSize = 1000\<rparr>"
      and ?t1.0 = 2000 and ?t0.0 = 1000 and t = 2000 and k = 7 and q = "''gin''" and fl = "\<lambda>x. x"
      and v = "''negroni''" and w = "''hits''"
      and e = "\<lparr>data = ''old'', timestamp = 500, accessCount = 3\<rparr>"
      and e' = "\<lparr>data = ''hits'', timestamp = 600, accessCount = 1\<rparr>"]
  by (auto simp: isValid_def)

section \<open>Expiry at lookup\<close>

text \<open>
  C2. For an entry \<open>e\<close> cached under a key: a \<open>get\<close> of the key at an age below the TTL
  returns the stored data; a \<open>get\<close> at an age of at least the TTL returns absent, deletes
  that entry from its collection (the key is absent afterwards and the size reported by
  \<open>getStats\<close> has decreased). Nothing else expires an entry: a \<open>get\<close> of any other key, in
  either collection, leaves the entry where it is, whatever its age. The state changes only
  through the methods, so there is no sweep that could remove it in between.
\<close>

theorem lazy_expiry:
  fixes m :: "('r, 's) CacheManager"
  shows "(map_of (recipeCache m) k = Some e \<longrightarrow>
           (t - timestamp e < cacheExpiry m \<longrightarrow>
              fst (getCachedRecipe t k m) = Some (data e))
         \<and> (t' - timestamp e \<ge> cacheExpiry m \<longrightarrow>
              getCachedRecipe t' k m = (None, m\<lparr>recipeCache := AList.delete k (recipeCache m)\<rparr>)
            \<and> map_of (recipeCache (snd (getCachedRecipe t' k m))) k = None
            \<and> recipeCacheSize (getStats (snd (getCachedRecipe t' k m)))
                < recipeCacheSize (getStats m))
         \<and> (k' \<noteq> k \<longrightarrow> map_of (recipeCache (snd (getCachedRecipe t'' k' m))) k = Some e)
         \<and> map_of (recipeCache (snd (getCachedSearch t'' q' m))) k = Some e)
     \<and> (map_of (searchCache m) q = Some e' \<longrightarrow>
           (t - timestamp e' < cacheExpiry m \<longrightarrow>
              fst (getCachedSearch t q m) = Some (data e'))
         \<and> (t' - timestamp e' \<ge> cacheExpiry m \<longrightarrow>
              getCachedSearch t' q m = (None, m\<lparr>searchCache := AList.delete q (searchCache m)\<rparr>)
            \<and> map_of (searchCache (snd (getCachedSearch t' q m))) q = None
            \<and> searchCacheSize (getStats (snd (getCachedSearch t' q m)))
                < searchCacheSize (getStats m))
         \<and> (q' \<noteq> q \<longrightarrow> map_of (searchCache (snd (getCachedSearch t'' q' m))) q = Some e')
         \<and> map_of (searchCache (snd (getCachedRecipe t'' k' m))) q = Some e')"
proof -
  have r: "map_of (recipeCache m) k = Some e \<Longrightarrow>
           (t - timestamp e < cacheExpiry m \<longrightarrow>
              fst (getCachedRecipe t k m) = Some (data e))
         \<and> (t' - timestamp e \<ge> cacheExpiry m \<longrightarrow>
              getCachedRecipe t' k m = (None, m\<lparr>recipeCache := AList.delete k (recipeCache m)\<rparr>)
            \<and> map_of (recipeCache (snd (getCachedRecipe t' k m))) k = None
            \<and> recipeCacheSize (getStats (snd (getCachedRecipe t' k m)))
                < recipeCacheSize (getStats m))"
    using getCachedRecipe_valid[of m k e t] getCachedRecipe_expired[of m k e t']
    by (auto simp: isValid_def map_of_delete_same getStats_def length_delete_less)
  have s: "map_of (searchCache m) q = Some e' \<Longrightarrow>
           (t - timestamp e' < cacheExpiry m \<longrightarrow>
              fst (getCachedSearch t q m) = Some (data e'))
         \<and> (t' - timestamp e' \<ge> cacheExpiry m \<longrightarrow>
              getCachedSearch t' q m = (None, m\<lparr>searchCache := AList.delete q (searchCache m)\<rparr>)
            \<and> map_of (searchCache (snd (getCachedSearch t' q m))) q = None
            \<and> searchCacheSize (getStats (snd (getCachedSearch t' q m)))
                < searchCacheSize (getStats m))"
    using getCachedSearch_valid[of m q e' t] getCachedSearch_expired[of m q e' t']
    by (auto simp: isValid_def map_of_delete_same getStats_def length_delete_less)
  have ro: "map_of (recipeCache m) k = Some e \<Longrightarrow> k' \<noteq> k \<Longrightarrow>
            map_of (recipeCache (snd (getCachedRecipe t'' k' m))) k = Some e"
    using lookup_other[of k' k "cacheExpiry m" t'' "recipeCache m"]
    by (simp add: getCachedRecipe_def split_beta)
  have so: "map_of (searchCache m) q = Some e' \<Longrightarrow> q' \<noteq> q \<Longrightarrow>
            map_of (searchCache (snd (getCachedSearch t'' q' m))) q = Some e'"
    using lookup_other[of q' q "cacheExpiry m" t'' "searchCache m"]
    by (simp add: getCachedSearch_def split_beta)
  have rs: "map_of (recipeCache m) k = Some e \<Longrightarrow>
            map_of (recipeCache (snd (getCachedSearch t'' q' m))) k = Some e"
    by (simp add: getCachedSearch_def split_beta)
  have sr: "map_of (searchCache m) q = Some e' \<Longrightarrow>
            map_of (searchCache (snd (getCachedRecipe t'' k' m))) q = Some e'"
    by (simp add: getCachedRecipe_def split_beta)
  show ?thesis using r s ro so rs sr by blast
qed

theorem lazy_expiry_witness:
  "map_of [(7::int, \<lparr>data = ''old'', timestamp = 500, accessCount = 3\<rparr>)] 7
     = Some \<lparr>data = ''old'', timestamp = 500, accessCount = 3\<rparr>
   \<and> map_of [(''gin'', \<lparr>data = ''hits'', timestamp = 500, accessCount = 1\<rparr>)] ''gin''
     = Some \<lparr>data = ''hits'', timestamp = 500, accessCount = 1\<rparr>
   \<and> (300499::int) - 500 < 300000 \<and> (300500::int) - 500 \<ge> 300000
   \<and> (8::int) \<noteq> 7 \<and> ''rum'' \<noteq> ''gin''
   \<and> fst (getCachedRecipe 300499 7
          \<lparr>recipeCache = [(7, \<lparr>data = ''old'', timestamp = 500, accessCount = 3\<rparr>)],
           searchCache = [(''gin'', \<lparr>data = ''hits'', timestamp = 500, accessCount = 1\<rparr>)],
           cacheExpiry = 300000, maxCacheSize = 1000\<rparr>) = Some ''old''
   \<and> getCachedRecipe 300500 7
          \<lparr>recipeCache = [(7, \<lparr>data = ''old'', timestamp = 500, accessCount = 3\<rparr>)],
           searchCache = [(''gin'', \<lparr>data = ''hits'', timestamp = 500, accessCount = 1\<rparr>)],
           cacheExpiry = 300000, maxCacheSize = 1000\<rparr>
       = (None, \<lparr>recipeCache = [],
           searchCache = [(''gin'', \<lparr>data = ''hits'', timestamp = 500, accessCount = 1\<rparr>)],
           cacheExpiry = 300000, maxCacheSize = 1000\<rparr>)
   \<and> fst (getCachedSearch 300499 ''gin''
          \<lparr>recipeCache = [(7, \<lparr>data = ''old'', timestamp = 500, accessCount = 3\<rparr>)],
           searchCache = [(''gin'', \<lparr>data = ''hits'', timestamp = 500, accessCount = 1\<rparr>)],
           cacheExpiry = 300000, maxCacheSize = 1000\<rparr>) = Some ''hits''
   \<and> getCachedSearch 300500 ''gin''
          \<lparr>recipeCache = [(7, \<lparr>data = ''old'', timestamp = 500, accessCount = 3\<rparr>)],
           searchCache = [(''gin'', \<lparr>data = ''hits'', timestamp = 500, accessCount = 1\<rparr>)],
           cacheExpiry = 300000, maxCacheSize = 1000\<rparr>
       = (None, \<lparr>recipeCache = [(7, \<lparr>data = ''old'', timestamp = 500, accessCount = 3\<rparr>)],
           searchCache = [],
           cacheExpiry = 300000, maxCacheSize = 1000\<rparr>)
   \<and> map_of (recipeCache (snd (getCachedRecipe 900000 8
          \<lparr>recipeCache = [(7, \<lparr>data = ''old'', timestamp = 500, accessCount = 3\<rparr>)],
           searchCache = [(''gin'', \<lparr>data = ''hits'', timestamp = 500, accessCount = 1\<rparr>)],
           cacheExpiry = 300000, maxCacheSize = 1000\<rparr>))) 7
       = Some \<lparr>data = ''old'', timestamp = 500, accessCount = 3\<rparr>
   \<and> map_of (searchCache (snd (getCachedSearch 900000 ''rum''
          \<lparr>recipeCache = [(7, \<lparr>data = ''old'', timestamp = 500, accessCount = 3\<rparr>)],
           searchCache = [(''gin'', \<lparr>data = ''hits'', timestamp = 500, accessCount = 1\<rparr>)],
           cacheExpiry = 300000, maxCacheSize = 1000\<rparr>))) ''gin''
       = Some \<lparr>data = ''hits'', timestamp = 500, accessCount = 1\<rparr>"
  using lazy_expiry[where m = "\<lparr>recipeCache = [(7, \<lparr>data = ''old'', timestamp = 500, accessCount = 3\<rparr>)],
               searchCache = [(''gin'', \<lparr>data = ''hits'', timestamp = 500, accessCount = 1\<rparr>)],
               cacheExpiry = 300000, maxCacheSize = 1000\<rparr>"
      and t = 300499 and t' = 300500 and t'' = 900000 and k = 7 and k' = 8
      and q = "''gin''" and q' = "''rum''"
      and e = "\<lparr>data = ''old'', timestamp = 500, accessCount = 3\<rparr>"
      and e' = "\<lparr>data = ''hits'', timestamp = 500, accessCount = 1\<rparr>"]
  by auto

section \<open>What a valid read changes\<close>

text \<open>
  C6. A \<open>get\<close> of a key whose entry \<open>e\<close> is valid changes nothing but that entry's
  \<open>accessCount\<close>: the state after the call is the state before with the entry's count
  incremented; the entry keeps its data and its timestamp (so its expiry time is the
  same), the keys and their order are the same, every other key maps to the same entry,
  and the other collection and the configuration are untouched. Both collections.
\<close>

theorem valid_get_frame:
  fixes m :: "('r, 's) CacheManager"
  shows "(map_of (recipeCache m) k = Some e \<and> isValid (cacheExpiry m) now e \<longrightarrow>
           snd (getCachedRecipe now k m)
             = m\<lparr>recipeCache := AList.update k (e\<lparr>accessCount := accessCount e + 1\<rparr>) (recipeCache m)\<rparr>
         \<and> map_of (recipeCache (snd (getCachedRecipe now k m))) k
             = Some \<lparr>data = data e, timestamp = timestamp e, accessCount = accessCount e + 1\<rparr>
         \<and> map fst (recipeCache (snd (getCachedRecipe now k m))) = map fst (recipeCache m)
         \<and> (\<forall>k'. k' \<noteq> k \<longrightarrow>
               map_of (recipeCache (snd (getCachedRecipe now k m))) k' = map_of (recipeCache m) k')
         \<and> searchCache (snd (getCachedRecipe now k m)) = searchCache m
         \<and> cacheExpiry (snd (getCachedRecipe now k m)) = cacheExpiry m
         \<and> maxCacheSize (snd (getCachedRecipe now k m)) = maxCacheSize m)
     \<and> (map_of (searchCache m) q = Some e' \<and> isValid (cacheExpiry m) now e' \<longrightarrow>
           snd (getCachedSearch now q m)
             = m\<lparr>searchCache := AList.update q (e'\<lparr>accessCount := accessCount e' + 1\<rparr>) (searchCache m)\<rparr>
         \<and> map_of (searchCache (snd (getCachedSearch now q m))) q
             = Some \<lparr>data = data e', timestamp = timestamp e', accessCount = accessCount e' + 1\<rparr>
         \<and> map fst (searchCache (snd (getCachedSearch now q m))) = map fst (searchCache m)
         \<and> (\<forall>q'. q' \<noteq> q \<longrightarrow>
               map_of (searchCache (snd (getCachedSearch now q m))) q' = map_of (searchCache m) q')
         \<and> recipeCache (snd (getCachedSearch now q m)) = recipeCache m
         \<and> cacheExpiry (snd (getCachedSearch now q m)) = cacheExpiry m
         \<and> maxCacheSize (snd (getCachedSearch now q m)) = maxCacheSize m)"
proof -
  have keys: "\<And>(al :: ('x \<times> 'y) list) x y y'. map_of al x = Some y \<Longrightarrow> map fst (AList.update x y' al) = map fst al"
    by (simp add: update_keys map_of_eq_None_iff[symmetric] del: map_of_eq_None_iff)
  show ?thesis
    by (auto simp: getCachedRecipe_valid getCachedSearch_valid update_conv' keys)
qed

theorem valid_get_frame_witness:
  "map_of [(7::int, \<lparr>data = ''old'', timestamp = 500, accessCount = 3\<rparr>)] 7
     = Some \<lparr>data = ''old'', timestamp = 500, accessCount = 3\<rparr>
   \<and> isValid 300000 2000 \<lparr>data = ''old'', timestamp = 500, accessCount = 3\<rparr>
   \<and> map_of [(''gin'', \<lparr>data = ''hits'', timestamp = 600, accessCount = 1\<rparr>)] ''gin''
     = Some \<lparr>data = ''hits'', timestamp = 600, accessCount = 1\<rparr>
   \<and> isValid 300000 2000 \<lparr>data = ''hits'', timestamp = 600, accessCount = 1\<rparr>
   \<and> snd (getCachedRecipe 2000 7
          \<lparr>recipeCache = [(7, \<lparr>data = ''old'', timestamp = 500, accessCount = 3\<rparr>)],
           searchCache = [(''gin'', \<lparr>data = ''hits'', timestamp = 600, accessCount = 1\<rparr>)],
           cacheExpiry = 300000, maxCacheSize = 1000\<rparr>)
       = \<lparr>recipeCache = [(7, \<lparr>data = ''old'', timestamp = 500, accessCount = 4\<rparr>)],
           searchCache = [(''gin'', \<lparr>data = ''hits'', timestamp = 600, accessCount = 1\<rparr>)],
           cacheExpiry = 300000, maxCacheSize = 1000\<rparr>
   \<and> snd (getCachedSearch 2000 ''gin''
          \<lparr>recipeCache = [(7, \<lparr>data = ''old'', timestamp = 500, accessCount = 3\<rparr>)],
           searchCache = [(''gin'', \<lparr>data = ''hits'', timestamp = 600, accessCount = 1\<rparr>)],
           cacheExpiry = 300000, maxCacheSize = 1000\<rparr>)
       = \<lparr>recipeCache = [(7, \<lparr>data = ''old'', timestamp = 500, accessCount = 3\<rparr>)],
           searchCache = [(''gin'', \<lparr>data = ''hits'', timestamp = 600, accessCount = 2\<rparr>)],
           cacheExpiry = 300000, maxCacheSize = 1000\<rparr>"
  using valid_get_frame[where m = "\<lparr>recipeCache = [(7, \<lparr>data = ''old'', timestamp = 500, accessCount = 3\<rparr>)],
               searchCache = [(''gin'', \<lparr>data = ''hits'', timestamp = 600, accessCount = 1\<rparr>)],
               cacheExpiry = 300000, maxCacheSize = 1000\<rparr>"
      and now = 2000 and k = 7 and q = "''gin''"
      and e = "\<lparr>data = ''old'', timestamp = 500, accessCount = 3\<rparr>"
      and e' = "\<lparr>data = ''hits'', timestamp = 600, accessCount = 1\<rparr>"]
  by (auto simp: isValid_def)

section \<open>Insertion below capacity\<close>

lemma dom_update_mono: "fst ` set al \<subseteq> fst ` set (AList.update k v al)"
  by (auto simp: dom_update)

text \<open>
  C9. When a collection holds fewer than \<open>maxCacheSize\<close> entries, the eviction check
  returns it as it is, and the \<open>set\<close> only writes the entry of its key: the collection
  afterwards is the one before with that key updated, every other key maps to the entry it
  had, no key is lost, and the other collection is the same. The key may be a new one or
  one that is overwritten. Both collections.
\<close>

theorem set_below_capacity:
  fixes m :: "('r, 's) CacheManager"
  shows "(int (length (recipeCache m)) < maxCacheSize m \<longrightarrow>
            evictIfNeeded fl (maxCacheSize m) now (recipeCache m) = Inr (recipeCache m)
          \<and> (\<exists>m'. setCachedRecipe fl now k d m = Inr m'
                \<and> recipeCache m'
                     = AList.update k \<lparr>data = d, timestamp = now, accessCount = 1\<rparr> (recipeCache m)
                \<and> (\<forall>k'. k' \<noteq> k \<longrightarrow> map_of (recipeCache m') k' = map_of (recipeCache m) k')
                \<and> fst ` set (recipeCache m) \<subseteq> fst ` set (recipeCache m')
                \<and> searchCache m' = searchCache m))
       \<and> (int (length (searchCache m)) < maxCacheSize m \<longrightarrow>
            evictIfNeeded fl (maxCacheSize m) now (searchCache m) = Inr (searchCache m)
          \<and> (\<exists>m'. setCachedSearch fl now q d' m = Inr m'
                \<and> searchCache m'
                     = AList.update q \<lparr>data = d', timestamp = now, accessCount = 1\<rparr> (searchCache m)
                \<and> (\<forall>q'. q' \<noteq> q \<longrightarrow> map_of (searchCache m') q' = map_of (searchCache m) q')
                \<and> fst ` set (searchCache m) \<subseteq> fst ` set (searchCache m')
                \<and> recipeCache m' = recipeCache m))"
  by (simp add: evictIfNeeded_below setCachedRecipe_def setCachedSearch_def store_def
      map_of_update_other dom_update_mono)

theorem set_below_capacity_witness:
  "int (length [(7::int, \<lparr>data = ''old'', timestamp = 500, accessCount = 3\<rparr>)]) < 1000
   \<and> int (length [(''gin'', \<lparr>data = ''hits'', timestamp = 600, accessCount = 5\<rparr>)]) < 1000
   \<and> (\<exists>m'. setCachedRecipe (\<lambda>x. x) 2000 8 ''new''
          \<lparr>recipeCache = [(7, \<lparr>data = ''old'', timestamp = 500, accessCount = 3\<rparr>)],
           searchCache = [(''gin'', \<lparr>data = ''hits'', timestamp = 600, accessCount = 5\<rparr>)],
           cacheExpiry = 300000, maxCacheSize = 1000\<rparr> = Inr m'
        \<and> recipeCache m' = [(7, \<lparr>data = ''old'', timestamp = 500, accessCount = 3\<rparr>),
                             (8, \<lparr>data = ''new'', timestamp = 2000, accessCount = 1\<rparr>)])
   \<and> (\<exists>m'. setCachedSearch (\<lambda>x. x) 2000 ''gin'' ''fresh''
          \<lparr>recipeCache = [(7, \<lparr>data = ''old'', timestamp = 500, accessCount = 3\<rparr>)],
           searchCache = [(''gin'', \<lparr>data = ''hits'', timestamp = 600, accessCount = 5\<rparr>)],
           cacheExpiry = 300000, maxCacheSize = 1000\<rparr> = Inr m'
        \<and> searchCache m' = [(''gin'', \<lparr>data = ''fresh'', timestamp = 2000, accessCount = 1\<rparr>)])"
  using set_below_capacity[where m = "\<lparr>recipeCache = [(7, \<lparr>data = ''old'', timestamp = 500, accessCount = 3\<rparr>)],
               searchCache = [(''gin'', \<lparr>data = ''hits'', timestamp = 600, accessCount = 5\<rparr>)],
               cacheExpiry = 300000, maxCacheSize = 1000\<rparr>"
      and now = 2000 and k = 8 and q = "''gin''" and fl = "\<lambda>x. x" and d = "''new''" and d' = "''fresh''"]
  by auto

section \<open>Eviction at capacity\<close>

subsection \<open>The comparator orders by score\<close>

lemma score_not_NaN: "1 \<le> accessCount e \<Longrightarrow> score fl now e \<noteq> NaN"
  by (simp add: score_def Let_def)

lemma js_positive_sub: "a \<noteq> NaN \<Longrightarrow> b \<noteq> NaN \<Longrightarrow> js_positive (js_sub a b) \<longleftrightarrow> \<not> js_le a b"
  by (cases a; cases b) auto

lemma js_le_trans: "js_le a b \<Longrightarrow> js_le b c \<Longrightarrow> js_le a c"
  by (cases a; cases b; cases c) auto

lemma js_le_total: "a \<noteq> NaN \<Longrightarrow> b \<noteq> NaN \<Longrightarrow> js_le a b \<or> js_le b a"
  by (cases a; cases b) auto

lemma set_insort_cmp: "set (insort_cmp cmp x ys) = insert x (set ys)"
  by (induction ys) auto

lemma set_sort_cmp: "set (sort_cmp cmp xs) = set xs"
  by (induction xs) (auto simp: sort_cmp_def set_insort_cmp)

lemma sorted_insort_score:
  assumes "sorted_wrt (\<lambda>a b. js_le (score fl now (snd a)) (score fl now (snd b))) ys"
    and "score fl now (snd x) \<noteq> NaN"
    and "\<forall>y \<in> set ys. score fl now (snd y) \<noteq> NaN"
  shows "sorted_wrt (\<lambda>a b. js_le (score fl now (snd a)) (score fl now (snd b)))
           (insort_cmp (score_cmp fl now) x ys)"
  using assms
proof (induction ys)
  case Nil
  then show ?case by simp
next
  case (Cons y ys)
  let ?s = "\<lambda>a. score fl now (snd a)"
  have ny: "?s y \<noteq> NaN" using Cons.prems(3) by simp
  show ?case
  proof (cases "js_positive (score_cmp fl now x y)")
    case True
    then have "\<not> js_le (?s x) (?s y)"
      using js_positive_sub[OF Cons.prems(2) ny] by (simp add: score_cmp_def)
    then have yx: "js_le (?s y) (?s x)"
      using js_le_total[OF Cons.prems(2) ny] by blast
    have "sorted_wrt (\<lambda>a b. js_le (?s a) (?s b)) (insort_cmp (score_cmp fl now) x ys)"
      using Cons by simp
    with yx Cons.prems(1) True show ?thesis
      by (auto simp: set_insort_cmp)
  next
    case False
    then have xy: "js_le (?s x) (?s y)"
      using js_positive_sub[OF Cons.prems(2) ny] by (simp add: score_cmp_def)
    have "\<forall>z \<in> set ys. js_le (?s x) (?s z)"
      using Cons.prems(1) xy js_le_trans by auto
    with xy Cons.prems(1) False show ?thesis by simp
  qed
qed

lemma sorted_sort_score:
  "\<forall>y \<in> set xs. score fl now (snd y) \<noteq> NaN \<Longrightarrow>
   sorted_wrt (\<lambda>a b. js_le (score fl now (snd a)) (score fl now (snd b)))
     (sort_cmp (score_cmp fl now) xs)"
proof (induction xs)
  case Nil
  then show ?case by (simp add: sort_cmp_def)
next
  case (Cons x xs)
  have "sorted_wrt (\<lambda>a b. js_le (score fl now (snd a)) (score fl now (snd b)))
          (insort_cmp (score_cmp fl now) x (sort_cmp (score_cmp fl now) xs))"
    using Cons by (intro sorted_insort_score) (auto simp: set_sort_cmp)
  then show ?case by (simp add: sort_cmp_def)
qed

subsection \<open>The loop deletes the head of the sorted array\<close>

lemma delete_first_filter:
  "n \<le> length entries \<Longrightarrow>
   delete_first n entries cache = Inr (filter (\<lambda>p. fst p \<notin> fst ` set (take n entries)) cache)"
proof (induction n entries cache rule: delete_first.induct)
  case (1 entries cache)
  then show ?case by simp
next
  case (2 n cache)
  then show ?case by simp
next
  case (3 n e entries cache)
  have "AList.delete (fst e) cache = filter (\<lambda>p. fst p \<noteq> fst e) cache"
    by (induction cache) auto
  with 3 show ?case by (auto intro: filter_cong)
qed

lemma cache_ok_scores:
  assumes "cache_ok cache"
  shows "\<forall>y \<in> set cache. score fl now (snd y) \<noteq> NaN"
proof
  fix y assume "y \<in> set cache"
  with assms have "1 \<le> accessCount (snd y)" by (simp add: cache_ok_def list_all_iff)
  then show "score fl now (snd y) \<noteq> NaN" by (rule score_not_NaN)
qed

lemma cache_ok_filter: "cache_ok cache \<Longrightarrow> cache_ok (filter P cache)"
  by (auto simp: cache_ok_def list_all_iff distinct_map_filter)

lemma evict_at_capacity:
  assumes ok: "cache_ok cache" and full: "maxSize \<le> int (length cache)"
  shows "\<exists>kept. evictIfNeeded fl maxSize now cache = Inr kept
     \<and> kept = filter (\<lambda>p. p \<in> set kept) cache
     \<and> length kept + nat (maxSize div 4) = length cache
     \<and> set cache - set kept
          = set (take (nat (maxSize div 4)) (sort_cmp (score_cmp fl now) cache))
     \<and> (\<forall>r \<in> set cache - set kept. \<forall>p \<in> set kept.
           js_le (score fl now (snd r)) (score fl now (snd p)))
     \<and> cache_ok kept"
proof -
  define n where "n = nat (maxSize div 4)"
  define es where "es = sort_cmp (score_cmp fl now) cache"
  define victims where "victims = take n es"
  define rest where "rest = drop n es"
  define kept where "kept = filter (\<lambda>p. fst p \<notin> fst ` set victims) cache"
  have n_le: "n \<le> length es"
    using full by (simp add: n_def es_def length_sort_cmp)
  have ev: "evictIfNeeded fl maxSize now cache = Inr kept"
    using full delete_first_filter[OF n_le, of cache]
    by (simp add: evictIfNeeded_def Let_def kept_def victims_def es_def n_def)
  have dk: "distinct (map fst cache)" using ok by (simp add: cache_ok_def)
  then have dc: "distinct cache" by (rule distinct_map[THEN iffD1, THEN conjunct1])
  have ms: "mset es = mset cache" by (simp add: es_def mset_sort_cmp)
  then have se: "set es = set cache" by (rule mset_eq_setD)
  have de: "distinct es" using ms dc by (metis mset_eq_imp_distinct_iff)
  have split: "es = victims @ rest" by (simp add: victims_def rest_def)
  have disj: "set victims \<inter> set rest = {}"
    using de split by (metis distinct_append)
  have vsub: "set victims \<subseteq> set cache"
    using se split by auto
  have inj: "inj_on fst (set cache)"
    using dk by (simp add: distinct_map)
  have key_iff: "fst p \<in> fst ` set victims \<longleftrightarrow> p \<in> set victims" if "p \<in> set cache" for p
  proof
    assume "fst p \<in> fst ` set victims"
    then obtain r where r: "r \<in> set victims" "fst r = fst p" by auto
    with vsub have "r \<in> set cache" by auto
    with inj that r(2) have "r = p" by (auto dest: inj_onD)
    with r(1) show "p \<in> set victims" by simp
  qed auto
  have kept_eq: "kept = filter (\<lambda>p. p \<notin> set victims) cache"
    unfolding kept_def by (rule filter_cong) (auto simp: key_iff)
  have set_kept: "set kept = set rest"
    using se split disj by (auto simp: kept_eq)
  have "mset kept = filter_mset (\<lambda>p. p \<notin> set victims) (mset es)"
    by (simp add: kept_eq ms)
  also have "\<dots> = filter_mset (\<lambda>p. p \<notin> set victims) (mset victims)
                  + filter_mset (\<lambda>p. p \<notin> set victims) (mset rest)"
    by (simp add: split)
  also have "filter_mset (\<lambda>p. p \<notin> set victims) (mset victims) = {#}"
    by (simp add: filter_mset_eq_conv) 
  also have "filter_mset (\<lambda>p. p \<notin> set victims) (mset rest) = mset rest"
    using disj by (auto simp: filter_mset_eq_conv)
  finally have "mset kept = mset rest" by simp
  then have "length kept = length rest" by (metis size_mset)
  then have len: "length kept + n = length cache"
    using n_le ms by (simp add: rest_def) (metis size_mset)
  have sub: "kept = filter (\<lambda>p. p \<in> set kept) cache"
  proof -
    have "filter (\<lambda>p. p \<in> set kept) cache = filter (\<lambda>p. p \<notin> set victims) cache"
      by (rule filter_cong) (auto simp: kept_eq)
    then show ?thesis by (simp add: kept_eq)
  qed
  have "sorted_wrt (\<lambda>a b. js_le (score fl now (snd a)) (score fl now (snd b))) es"
    unfolding es_def by (rule sorted_sort_score) (rule cache_ok_scores[OF ok])
  then have low: "\<forall>r \<in> set victims. \<forall>p \<in> set rest.
                 js_le (score fl now (snd r)) (score fl now (snd p))"
    by (simp add: split sorted_wrt_append)
  have removed: "set cache - set kept = set victims"
    using vsub by (auto simp: kept_eq)
  have okk: "cache_ok kept" unfolding kept_def by (rule cache_ok_filter[OF ok])
  have removed': "set cache - set kept
                  = set (take (nat (maxSize div 4)) (sort_cmp (score_cmp fl now) cache))"
    using removed by (simp add: victims_def es_def n_def)
  have low': "\<forall>r \<in> set cache - set kept. \<forall>p \<in> set kept.
                js_le (score fl now (snd r)) (score fl now (snd p))"
    using low removed set_kept by simp
  show ?thesis
    using ev sub len removed' low' okk unfolding n_def by blast
qed





section \<open>Well-formedness is kept\<close>

text \<open>Every operation keeps both collections well-formed, so every state that a new
  manager can reach has well-formed collections.\<close>

lemma evictIfNeeded_filter: "\<exists>P. evictIfNeeded fl maxSize now cache = Inr (filter P cache)"
proof (cases "maxSize \<le> int (length cache)")
  case True
  then have "nat (maxSize div 4) \<le> length (sort_cmp (score_cmp fl now) cache)"
    by (simp add: length_sort_cmp)
  from delete_first_filter[OF this, of cache] show ?thesis
    using True by (auto simp: evictIfNeeded_def Let_def)
next
  case False
  have "filter (\<lambda>p. True) cache = cache" by simp
  with False show ?thesis by (metis evictIfNeeded_below not_le)
qed

lemma cache_ok_update:
  "cache_ok cache \<Longrightarrow> 1 \<le> accessCount e \<Longrightarrow> cache_ok (AList.update k e cache)"
proof -
  assume a: "cache_ok cache" "1 \<le> accessCount e"
  have "set (AList.update k e cache) \<subseteq> insert (k, e) (set cache)"
    by (induction cache) auto
  with a show ?thesis
    by (auto simp: cache_ok_def list_all_iff distinct_update)
qed

lemma cache_ok_delete: "cache_ok cache \<Longrightarrow> cache_ok (AList.delete k cache)"
proof -
  assume a: "cache_ok cache"
  have "set (AList.delete k cache) \<subseteq> set cache"
    by (induction cache) auto
  with a show ?thesis
    by (auto simp: cache_ok_def list_all_iff distinct_delete)
qed

lemma cache_ok_lookup: "cache_ok cache \<Longrightarrow> cache_ok (snd (lookup expiry now k cache))"
  by (auto simp: lookup_def cache_ok_update cache_ok_delete split: option.split)

lemma cache_ok_store: "cache_ok cache \<Longrightarrow> store fl maxSize now k d cache = Inr c \<Longrightarrow> cache_ok c"
  using evictIfNeeded_filter[of fl maxSize now cache]
  by (auto simp: store_def cache_ok_filter cache_ok_update)

lemma perform_cache_ok:
  assumes "cache_ok (recipeCache m)" "cache_ok (searchCache m)" "perform fl now op m = Inr m'"
  shows "cache_ok (recipeCache m') \<and> cache_ok (searchCache m')"
proof (cases op)
  case (GetRecipe k)
  with assms show ?thesis
    using cache_ok_lookup[of "recipeCache m" "cacheExpiry m" now k]
    by (auto simp: getCachedRecipe_def split_beta)
next
  case (SetRecipe k d)
  with assms show ?thesis
    using cache_ok_store[of "recipeCache m" fl "maxCacheSize m" now k d]
    by (auto simp: setCachedRecipe_def split: sum.splits)
next
  case (GetSearch q)
  with assms show ?thesis
    using cache_ok_lookup[of "searchCache m" "cacheExpiry m" now q]
    by (auto simp: getCachedSearch_def split_beta)
next
  case (SetSearch q d)
  with assms show ?thesis
    using cache_ok_store[of "searchCache m" fl "maxCacheSize m" now q d]
    by (auto simp: setCachedSearch_def split: sum.splits)
next
  case GetStats
  with assms show ?thesis by auto
next
  case Clear
  with assms show ?thesis by (auto simp: clear_def cache_ok_def)
qed

lemma run_cache_ok:
  "cache_ok (recipeCache m) \<Longrightarrow> cache_ok (searchCache m) \<Longrightarrow> run fl ops m = Inr m' \<Longrightarrow>
   cache_ok (recipeCache m') \<and> cache_ok (searchCache m')"
proof (induction ops arbitrary: m)
  case Nil
  then show ?case by simp
next
  case (Cons x ops)
  obtain now op where x: "x = (now, op)" by (cases x)
  show ?case
  proof (cases "perform fl now op m")
    case (Inl e)
    with Cons.prems(3) x show ?thesis by simp
  next
    case (Inr m1)
    from perform_cache_ok[OF Cons.prems(1,2) Inr]
    have "cache_ok (recipeCache m1)" "cache_ok (searchCache m1)" by simp_all
    moreover have "run fl ops m1 = Inr m'" using Cons.prems(3) x Inr by simp
    ultimately show ?thesis by (rule Cons.IH)
  qed
qed

lemma reachable_cache_ok:
  "run fl ops (constructor ttl maxSize) = Inr m' \<Longrightarrow>
   cache_ok (recipeCache m') \<and> cache_ok (searchCache m')"
  by (rule run_cache_ok[of "constructor ttl maxSize"]) (simp_all add: constructor_def cache_ok_def)

lemma cache_ok_single:
  "cache_ok cache \<Longrightarrow> map_of cache k = Some v \<Longrightarrow> (k, e) \<in> set cache \<Longrightarrow> e = v"
  by (simp add: cache_ok_def)

section \<open>Overwriting a key\<close>

lemma store_fresh_only:
  assumes "cache_ok cache" "store fl maxSize now k d cache = Inr c" "(k, e) \<in> set c"
  shows "e = \<lparr>data = d, timestamp = now, accessCount = 1\<rparr>"
proof -
  have "cache_ok c" using assms(1,2) by (rule cache_ok_store)
  moreover have "map_of c k = Some \<lparr>data = d, timestamp = now, accessCount = 1\<rparr>"
    using store_entry[of fl maxSize now k d cache] assms(2) by auto
  ultimately show ?thesis using assms(3) by (rule cache_ok_single)
qed

lemma recipe_set_entry:
  "\<exists>m'. setCachedRecipe fl now k d m = Inr m'
      \<and> map_of (recipeCache m') k = Some \<lparr>data = d, timestamp = now, accessCount = 1\<rparr>
      \<and> (cache_ok (recipeCache m) \<longrightarrow>
            (\<forall>e. (k, e) \<in> set (recipeCache m') \<longrightarrow>
                 e = \<lparr>data = d, timestamp = now, accessCount = 1\<rparr>))"
proof -
  from store_entry[of fl "maxCacheSize m" now k d "recipeCache m"] obtain c where
    c: "store fl (maxCacheSize m) now k d (recipeCache m) = Inr c"
       "map_of c k = Some \<lparr>data = d, timestamp = now, accessCount = 1\<rparr>"
    by blast
  have "setCachedRecipe fl now k d m = Inr (m\<lparr>recipeCache := c\<rparr>)"
    using c(1) by (simp add: setCachedRecipe_def)
  moreover have "cache_ok (recipeCache m) \<longrightarrow>
      (\<forall>e. (k, e) \<in> set c \<longrightarrow> e = \<lparr>data = d, timestamp = now, accessCount = 1\<rparr>)"
    using store_fresh_only[OF _ c(1)] by blast
  ultimately show ?thesis using c(2) by simp
qed

lemma search_set_entry:
  "\<exists>m'. setCachedSearch fl now q d m = Inr m'
      \<and> map_of (searchCache m') q = Some \<lparr>data = d, timestamp = now, accessCount = 1\<rparr>
      \<and> (cache_ok (searchCache m) \<longrightarrow>
            (\<forall>e. (q, e) \<in> set (searchCache m') \<longrightarrow>
                 e = \<lparr>data = d, timestamp = now, accessCount = 1\<rparr>))"
proof -
  from store_entry[of fl "maxCacheSize m" now q d "searchCache m"] obtain c where
    c: "store fl (maxCacheSize m) now q d (searchCache m) = Inr c"
       "map_of c q = Some \<lparr>data = d, timestamp = now, accessCount = 1\<rparr>"
    by blast
  have "setCachedSearch fl now q d m = Inr (m\<lparr>searchCache := c\<rparr>)"
    using c(1) by (simp add: setCachedSearch_def)
  moreover have "cache_ok (searchCache m) \<longrightarrow>
      (\<forall>e. (q, e) \<in> set c \<longrightarrow> e = \<lparr>data = d, timestamp = now, accessCount = 1\<rparr>)"
    using store_fresh_only[OF _ c(1)] by blast
  ultimately show ?thesis using c(2) by simp
qed

text \<open>
  C7. A \<open>set\<close> at time \<open>now\<close> for a key that holds a live entry \<open>old\<close> succeeds, and the key
  then holds the entry with the new data, \<open>timestamp = now\<close> and \<open>accessCount = 1\<close>: nothing of
  \<open>old\<close>, neither its timestamp nor its count, is in the result. In a well-formed collection
  that fresh entry is the only one left under the key. Both collections.
\<close>

theorem set_overwrites:
  fixes m :: "('r, 's) CacheManager"
  shows "(map_of (recipeCache m) k = Some old \<and> isValid (cacheExpiry m) now old \<longrightarrow>
           (\<exists>m'. setCachedRecipe fl now k d m = Inr m'
              \<and> map_of (recipeCache m') k = Some \<lparr>data = d, timestamp = now, accessCount = 1\<rparr>
              \<and> (cache_ok (recipeCache m) \<longrightarrow>
                    (\<forall>e. (k, e) \<in> set (recipeCache m') \<longrightarrow>
                         e = \<lparr>data = d, timestamp = now, accessCount = 1\<rparr>))))
       \<and> (map_of (searchCache m) q = Some old' \<and> isValid (cacheExpiry m) now old' \<longrightarrow>
           (\<exists>m'. setCachedSearch fl now q d' m = Inr m'
              \<and> map_of (searchCache m') q = Some \<lparr>data = d', timestamp = now, accessCount = 1\<rparr>
              \<and> (cache_ok (searchCache m) \<longrightarrow>
                    (\<forall>e. (q, e) \<in> set (searchCache m') \<longrightarrow>
                         e = \<lparr>data = d', timestamp = now, accessCount = 1\<rparr>))))"
  using recipe_set_entry[of fl now k d m] search_set_entry[of fl now q d' m] by blast

theorem set_overwrites_witness:
  "map_of [(7::int, \<lparr>data = ''old'', timestamp = 500, accessCount = 3\<rparr>)] 7
     = Some \<lparr>data = ''old'', timestamp = 500, accessCount = 3\<rparr>
   \<and> isValid 300000 2000 \<lparr>data = ''old'', timestamp = 500, accessCount = 3\<rparr>
   \<and> cache_ok [(7::int, \<lparr>data = ''old'', timestamp = 500, accessCount = 3\<rparr>)]
   \<and> map_of [(''gin'', \<lparr>data = ''hits'', timestamp = 600, accessCount = 5\<rparr>)] ''gin''
     = Some \<lparr>data = ''hits'', timestamp = 600, accessCount = 5\<rparr>
   \<and> isValid 300000 2000 \<lparr>data = ''hits'', timestamp = 600, accessCount = 5\<rparr>
   \<and> cache_ok [(''gin'', \<lparr>data = ''hits'', timestamp = 600, accessCount = 5\<rparr>)]
   \<and> (\<exists>m'. setCachedRecipe (\<lambda>x. x) 2000 7 ''new''
          \<lparr>recipeCache = [(7, \<lparr>data = ''old'', timestamp = 500, accessCount = 3\<rparr>)],
           searchCache = [(''gin'', \<lparr>data = ''hits'', timestamp = 600, accessCount = 5\<rparr>)],
           cacheExpiry = 300000, maxCacheSize = 1000\<rparr> = Inr m'
        \<and> map_of (recipeCache m') 7 = Some \<lparr>data = ''new'', timestamp = 2000, accessCount = 1\<rparr>
        \<and> (7, \<lparr>data = ''old'', timestamp = 500, accessCount = 3\<rparr>) \<notin> set (recipeCache m'))
   \<and> (\<exists>m'. setCachedSearch (\<lambda>x. x) 2000 ''gin'' ''fresh''
          \<lparr>recipeCache = [(7, \<lparr>data = ''old'', timestamp = 500, accessCount = 3\<rparr>)],
           searchCache = [(''gin'', \<lparr>data = ''hits'', timestamp = 600, accessCount = 5\<rparr>)],
           cacheExpiry = 300000, maxCacheSize = 1000\<rparr> = Inr m'
        \<and> map_of (searchCache m') ''gin''
            = Some \<lparr>data = ''fresh'', timestamp = 2000, accessCount = 1\<rparr>
        \<and> (''gin'', \<lparr>data = ''hits'', timestamp = 600, accessCount = 5\<rparr>) \<notin> set (searchCache m'))"
  using set_overwrites[where m = "\<lparr>recipeCache = [(7, \<lparr>data = ''old'', timestamp = 500, accessCount = 3\<rparr>)],
           searchCache = [(''gin'', \<lparr>data = ''hits'', timestamp = 600, accessCount = 5\<rparr>)],
           cacheExpiry = 300000, maxCacheSize = 1000\<rparr>"
      and now = 2000 and k = 7 and q = "''gin''" and fl = "\<lambda>x. x" and d = "''new''" and d' = "''fresh''"
      and old = "\<lparr>data = ''old'', timestamp = 500, accessCount = 3\<rparr>"
      and old' = "\<lparr>data = ''hits'', timestamp = 600, accessCount = 5\<rparr>"]
  by (auto simp: isValid_def cache_ok_def)

section \<open>No operation throws\<close>

subsection \<open>A key that is not inserted stays absent\<close>

lemma absent_lookup:
  "map_of cache k = None \<Longrightarrow> map_of (snd (lookup expiry now k' cache)) k = None"
  by (cases "k' = k") (simp_all add: lookup_absent lookup_other)

lemma absent_filter: "map_of cache k = None \<Longrightarrow> map_of (filter P cache) k = None"
  by (auto simp: map_of_eq_None_iff)

lemma absent_store:
  "map_of cache k = None \<Longrightarrow> k' \<noteq> k \<Longrightarrow> store fl maxSize now k' d cache = Inr c \<Longrightarrow>
   map_of c k = None"
  using evictIfNeeded_filter[of fl maxSize now cache]
  by (auto simp: store_def update_conv' absent_filter simp del: map_of_eq_None_iff)

lemma perform_total: "\<exists>m'. perform fl now op m = Inr m'"
proof (cases op)
  case (SetRecipe k d)
  then show ?thesis using setCachedRecipe_result[of fl m now k d] by auto
next
  case (SetSearch q d)
  then show ?thesis using setCachedSearch_result[of fl m now q d] by auto
qed simp_all

lemma run_total: "\<exists>m'. run fl ops m = Inr m'"
proof (induction ops arbitrary: m)
  case Nil
  then show ?case by simp
next
  case (Cons x ops)
  obtain now op where x: "x = (now, op)" by (cases x)
  from perform_total[of fl now op m] obtain m1 where "perform fl now op m = Inr m1" by blast
  with Cons[of m1] x show ?case by simp
qed

lemma perform_absent_recipe:
  assumes "map_of (recipeCache m) k = None" "\<not> inserts_recipe k op" "perform fl now op m = Inr m'"
  shows "map_of (recipeCache m') k = None"
proof (cases op)
  case (GetRecipe k')
  with assms show ?thesis
    using absent_lookup[of "recipeCache m" k "cacheExpiry m" now k']
    by (auto simp: getCachedRecipe_def split_beta)
next
  case (SetRecipe k' d)
  with assms show ?thesis
    using absent_store[of "recipeCache m" k k' fl "maxCacheSize m" now d]
    by (auto simp: setCachedRecipe_def split: sum.splits)
next
  case (GetSearch q)
  with assms show ?thesis by (auto simp: getCachedSearch_def split_beta)
next
  case (SetSearch q d)
  with assms show ?thesis by (auto simp: setCachedSearch_def split: sum.splits)
next
  case GetStats
  with assms show ?thesis by auto
next
  case Clear
  with assms show ?thesis by (auto simp: clear_def)
qed

lemma perform_absent_search:
  assumes "map_of (searchCache m) q = None" "\<not> inserts_search q op" "perform fl now op m = Inr m'"
  shows "map_of (searchCache m') q = None"
proof (cases op)
  case (GetRecipe k')
  with assms show ?thesis by (auto simp: getCachedRecipe_def split_beta)
next
  case (SetRecipe k' d)
  with assms show ?thesis by (auto simp: setCachedRecipe_def split: sum.splits)
next
  case (GetSearch q')
  with assms show ?thesis
    using absent_lookup[of "searchCache m" q "cacheExpiry m" now q']
    by (auto simp: getCachedSearch_def split_beta)
next
  case (SetSearch q' d)
  with assms show ?thesis
    using absent_store[of "searchCache m" q q' fl "maxCacheSize m" now d]
    by (auto simp: setCachedSearch_def split: sum.splits)
next
  case GetStats
  with assms show ?thesis by auto
next
  case Clear
  with assms show ?thesis by (auto simp: clear_def)
qed

lemma run_absent_recipe:
  "map_of (recipeCache m) k = None \<Longrightarrow> \<forall>x \<in> set ops. \<not> inserts_recipe k (snd x) \<Longrightarrow>
   run fl ops m = Inr m' \<Longrightarrow> map_of (recipeCache m') k = None"
proof (induction ops arbitrary: m)
  case Nil
  then show ?case by simp
next
  case (Cons x ops)
  obtain now op where x: "x = (now, op)" by (cases x)
  from perform_total[of fl now op m] obtain m1 where m1: "perform fl now op m = Inr m1" by blast
  have "map_of (recipeCache m1) k = None"
    using perform_absent_recipe[OF Cons.prems(1) _ m1] Cons.prems(2) x by simp
  moreover have "run fl ops m1 = Inr m'" using Cons.prems(3) x m1 by simp
  ultimately show ?case using Cons.IH[of m1] Cons.prems(2) by simp
qed

lemma run_absent_search:
  "map_of (searchCache m) q = None \<Longrightarrow> \<forall>x \<in> set ops. \<not> inserts_search q (snd x) \<Longrightarrow>
   run fl ops m = Inr m' \<Longrightarrow> map_of (searchCache m') q = None"
proof (induction ops arbitrary: m)
  case Nil
  then show ?case by simp
next
  case (Cons x ops)
  obtain now op where x: "x = (now, op)" by (cases x)
  from perform_total[of fl now op m] obtain m1 where m1: "perform fl now op m = Inr m1" by blast
  have "map_of (searchCache m1) q = None"
    using perform_absent_search[OF Cons.prems(1) _ m1] Cons.prems(2) x by simp
  moreover have "run fl ops m1 = Inr m'" using Cons.prems(3) x m1 by simp
  ultimately show ?case using Cons.IH[of m1] Cons.prems(2) by simp
qed

text \<open>
  C8. No operation of the class throws. \<open>get\<close>, \<open>getStats\<close> and \<open>clear\<close> have no
  statement that can; \<open>set\<close> always returns a state, because the eviction loop never
  indexes past the sorted array; so every sequence of operations, from any state, runs to
  its end. And after any sequence of operations on a new manager in which a key was never
  inserted into a collection, a \<open>get\<close> of that key in that collection returns absent and
  leaves the state as it is.
\<close>

theorem never_raises:
  fixes m :: "('r, 's) CacheManager"
  shows "(\<exists>m'. setCachedRecipe fl now k d m = Inr m')
       \<and> (\<exists>m'. setCachedSearch fl now q d' m = Inr m')
       \<and> (\<exists>m'. run fl ops m = Inr m')
       \<and> ((\<forall>x \<in> set ops. \<not> inserts_recipe k (snd x)) \<longrightarrow>
            (\<exists>m'. run fl ops (constructor ttl maxSize) = Inr m'
               \<and> getCachedRecipe now k m' = (None, m')))
       \<and> ((\<forall>x \<in> set ops. \<not> inserts_search q (snd x)) \<longrightarrow>
            (\<exists>m'. run fl ops (constructor ttl maxSize) = Inr m'
               \<and> getCachedSearch now q m' = (None, m')))"
proof -
  let ?c = "constructor ttl maxSize :: ('r, 's) CacheManager"
  obtain m0 where m0: "run fl ops ?c = Inr m0" using run_total[of fl ops ?c] by blast
  have r: "\<forall>x \<in> set ops. \<not> inserts_recipe k (snd x) \<Longrightarrow> getCachedRecipe now k m0 = (None, m0)"
    using run_absent_recipe[of ?c k ops fl m0] m0
    by (simp add: constructor_def getCachedRecipe_absent)
  have s: "\<forall>x \<in> set ops. \<not> inserts_search q (snd x) \<Longrightarrow> getCachedSearch now q m0 = (None, m0)"
    using run_absent_search[of ?c q ops fl m0] m0
    by (simp add: constructor_def getCachedSearch_absent)
  show ?thesis
    using setCachedRecipe_result[of fl m now k d] setCachedSearch_result[of fl m now q d']
      run_total[of fl ops m] m0 r s by blast
qed

theorem never_raises_witness:
  "list_all (\<lambda>x. \<not> inserts_recipe 2 (snd x)) ([(0, SetRecipe 1 ''a''), (5, GetRecipe 1), (6, SetSearch ''gin'' ''g''),
                      (7, GetStats), (8, Clear), (9, GetSearch ''gin'')] :: (int \<times> (string, string) operation) list)
   \<and> list_all (\<lambda>x. \<not> inserts_search ''rum'' (snd x)) ([(0, SetRecipe 1 ''a''), (5, GetRecipe 1), (6, SetSearch ''gin'' ''g''),
                      (7, GetStats), (8, Clear), (9, GetSearch ''gin'')] :: (int \<times> (string, string) operation) list)
   \<and> (\<exists>m'. run (\<lambda>x. x) [(0, SetRecipe 1 ''a''), (5, GetRecipe 1), (6, SetSearch ''gin'' ''g''),
                      (7, GetStats), (8, Clear), (9, GetSearch ''gin'')]
              (constructor None None :: (string, string) CacheManager) = Inr m'
          \<and> getCachedRecipe 10 2 m' = (None, m'))
   \<and> (\<exists>m'. run (\<lambda>x. x) [(0, SetRecipe 1 ''a''), (5, GetRecipe 1), (6, SetSearch ''gin'' ''g''),
                      (7, GetStats), (8, Clear), (9, GetSearch ''gin'')]
              (constructor None None :: (string, string) CacheManager) = Inr m'
          \<and> getCachedSearch 10 ''rum'' m' = (None, m'))"
  using never_raises[where ops = "[(0, SetRecipe 1 ''a''), (5, GetRecipe 1), (6, SetSearch ''gin'' ''g''),
                      (7, GetStats), (8, Clear), (9, GetSearch ''gin'')]"
      and k = 2 and q = "''rum''" and fl = "\<lambda>x. x" and ttl = None and maxSize = None and now = 10]
  by simp

section \<open>The capacity bound\<close>

text \<open>
  C4. The claim is that no collection ever holds more than \<open>maxCacheSize\<close> entries. With
  a capacity of 1, two insertions of different keys leave two entries: the second \<open>set\<close>
  finds \<open>size >= maxCacheSize\<close>, but \<open>Math.floor(1 * 0.25)\<close> is 0 and the eviction removes
  nothing. The same happens for a capacity of 2 or 3.
\<close>

theorem capacity_exceeded:
  "run (\<lambda>x. x) [(0, SetRecipe 1 ''a''), (1, SetRecipe 2 ''b'')]
       (constructor None (Some 1) :: (string, string) CacheManager)
     = Inr \<lparr>recipeCache = [(1, \<lparr>data = ''a'', timestamp = 0, accessCount = 1\<rparr>),
                            (2, \<lparr>data = ''b'', timestamp = 1, accessCount = 1\<rparr>)],
             searchCache = [], cacheExpiry = 300000, maxCacheSize = 1\<rparr>
   \<and> int (length [(1::int, \<lparr>data = ''a'', timestamp = 0, accessCount = 1\<rparr>),
                   (2, \<lparr>data = ''b'', timestamp = 1, accessCount = 1\<rparr>)]) > 1"
  by (simp add: constructor_def falsy_or_def setCachedRecipe_def store_def evictIfNeeded_def
      sort_cmp_def score_cmp_def score_def Let_def)

text \<open>From a capacity of 4 on the eviction removes at least one entry whenever the
  collection is full, and the bound holds after every sequence of operations.\<close>

lemma length_update_le: "length (AList.update k v al) \<le> Suc (length al)"
  by (induction al) auto

lemma length_update_present:
  "map_of al k = Some e \<Longrightarrow> length (AList.update k v al) = length al"
  by (induction al) (auto split: if_splits)

lemma length_lookup_le: "length (snd (lookup expiry now k cache)) \<le> length cache"
  by (auto simp: lookup_def length_update_present length_delete_le split: option.split)

lemma store_bounded:
  assumes "4 \<le> maxSize" "cache_ok cache" "int (length cache) \<le> maxSize"
    and st: "store fl maxSize now k d cache = Inr c"
  shows "int (length c) \<le> maxSize"
proof (cases "int (length cache) < maxSize")
  case True
  with st have "c = AList.update k \<lparr>data = d, timestamp = now, accessCount = 1\<rparr> cache"
    by (simp add: store_def evictIfNeeded_below)
  with True length_update_le[of k "\<lparr>data = d, timestamp = now, accessCount = 1\<rparr>" cache]
  show ?thesis by simp
next
  case False
  with assms(3) have full: "maxSize \<le> int (length cache)" by simp
  from evict_at_capacity[OF assms(2) full, of fl now] obtain kept where
    kept: "evictIfNeeded fl maxSize now cache = Inr kept"
      "length kept + nat (maxSize div 4) = length cache"
    by blast
  have "1 \<le> nat (maxSize div 4)" using assms(1) by simp
  with kept(2) assms(3) have "int (length kept) < maxSize" by linarith
  moreover have "c = AList.update k \<lparr>data = d, timestamp = now, accessCount = 1\<rparr> kept"
    using st kept(1) by (simp add: store_def)
  ultimately show ?thesis
    using length_update_le[of k "\<lparr>data = d, timestamp = now, accessCount = 1\<rparr>" kept] by simp
qed

lemma perform_bounded:
  assumes "4 \<le> maxCacheSize m" "bounded m" "perform fl now op m = Inr m'"
  shows "bounded m' \<and> maxCacheSize m' = maxCacheSize m"
proof (cases op)
  case (GetRecipe k)
  with assms show ?thesis
    using length_lookup_le[of "cacheExpiry m" now k "recipeCache m"]
      cache_ok_lookup[of "recipeCache m" "cacheExpiry m" now k]
    by (auto simp: bounded_def getCachedRecipe_def split_beta)
next
  case (SetRecipe k d)
  with assms show ?thesis
    using store_bounded[of "maxCacheSize m" "recipeCache m" fl now k d]
      cache_ok_store[of "recipeCache m" fl "maxCacheSize m" now k d]
    by (auto simp: bounded_def setCachedRecipe_def split: sum.splits)
next
  case (GetSearch q)
  with assms show ?thesis
    using length_lookup_le[of "cacheExpiry m" now q "searchCache m"]
      cache_ok_lookup[of "searchCache m" "cacheExpiry m" now q]
    by (auto simp: bounded_def getCachedSearch_def split_beta)
next
  case (SetSearch q d)
  with assms show ?thesis
    using store_bounded[of "maxCacheSize m" "searchCache m" fl now q d]
      cache_ok_store[of "searchCache m" fl "maxCacheSize m" now q d]
    by (auto simp: bounded_def setCachedSearch_def split: sum.splits)
next
  case GetStats
  with assms show ?thesis by auto
next
  case Clear
  with assms show ?thesis by (auto simp: bounded_def clear_def cache_ok_def)
qed

lemma run_bounded:
  "4 \<le> maxCacheSize m \<Longrightarrow> bounded m \<Longrightarrow> run fl ops m = Inr m' \<Longrightarrow>
   bounded m' \<and> maxCacheSize m' = maxCacheSize m"
proof (induction ops arbitrary: m)
  case Nil
  then show ?case by simp
next
  case (Cons x ops)
  obtain now op where x: "x = (now, op)" by (cases x)
  from perform_total[of fl now op m] obtain m1 where m1: "perform fl now op m = Inr m1" by blast
  from perform_bounded[OF Cons.prems(1,2) m1]
  have b: "bounded m1" "maxCacheSize m1 = maxCacheSize m" by simp_all
  have "run fl ops m1 = Inr m'" using Cons.prems(3) x m1 by simp
  with Cons.IH[of m1] b Cons.prems(1) show ?case by simp
qed

lemma size_bounded_from_four:
  assumes "4 \<le> maxCacheSize (constructor ttl maxSize :: ('r, 's) CacheManager)"
    and "run fl ops (constructor ttl maxSize :: ('r, 's) CacheManager) = Inr m'"
  shows "int (length (recipeCache m')) \<le> maxCacheSize m'
       \<and> int (length (searchCache m')) \<le> maxCacheSize m'"
proof -
  let ?c = "constructor ttl maxSize :: ('r, 's) CacheManager"
  have "bounded ?c" using assms(1) by (simp add: bounded_def constructor_def cache_ok_def)
  from run_bounded[OF assms(1) this assms(2)] show ?thesis by (simp add: bounded_def)
qed

section \<open>Explicit arguments and parsed facets\<close>

lemma enhanceSearchArgs_fields:
  "preferred_strength (enhanceSearchArgs args pq)
     = (if truthy (strength pq) \<and> \<not> truthy (preferred_strength args)
        then strength pq else preferred_strength args)"
  "preferred_flavors (enhanceSearchArgs args pq)
     = (if flavors pq \<noteq> [] \<and> preferred_flavors args = None
        then Some (flavors pq) else preferred_flavors args)"
  "must_include (enhanceSearchArgs args pq)
     = (if ingredients pq \<noteq> [] then Some (or_empty (must_include args) @ ingredients pq)
        else must_include args)"
  "must_exclude (enhanceSearchArgs args pq)
     = (if excludes pq \<noteq> [] then Some (or_empty (must_exclude args) @ excludes pq)
        else must_exclude args)"
  "glass_type (enhanceSearchArgs args pq)
     = (if truthy (glass pq) \<and> \<not> truthy (glass_type args)
        then glass pq else glass_type args)"
  "preparation_method (enhanceSearchArgs args pq)
     = (if truthy (method' pq) \<and> \<not> truthy (preparation_method args)
        then method' pq else preparation_method args)"
  "SearchArgs.more (enhanceSearchArgs args pq) = SearchArgs.more args"
  by (simp_all add: enhanceSearchArgs_def Let_def)

text \<open>
  C5 as stated says that a parsed facet reaches an output field only if the caller did not
  supply that field. It fails for \<open>must_include\<close>: the caller supplies \<open>["gin"]\<close>, the parsed
  ingredients are \<open>["campari"]\<close>, and the output field is \<open>["gin", "campari"]\<close>.
\<close>

theorem enhance_must_include_counterexample:
  "must_include \<lparr>preferred_strength = None, preferred_flavors = None, must_include = Some [''gin''],
               must_exclude = None, glass_type = None, preparation_method = None\<rparr> = Some [''gin'']
   \<and> must_include (enhanceSearchArgs \<lparr>preferred_strength = None, preferred_flavors = None, must_include = Some [''gin''],
               must_exclude = None, glass_type = None, preparation_method = None\<rparr> \<lparr>strength = None, flavors = [], spirit = None, glass = None, excludes = [],
               ingredients = [''campari''], method' = None, difficulty = None, mood = None,
               occasion = None\<rparr>) = Some [''gin'', ''campari'']
   \<and> must_include (enhanceSearchArgs \<lparr>preferred_strength = None, preferred_flavors = None, must_include = Some [''gin''],
               must_exclude = None, glass_type = None, preparation_method = None\<rparr> \<lparr>strength = None, flavors = [], spirit = None, glass = None, excludes = [],
               ingredients = [''campari''], method' = None, difficulty = None, mood = None,
               occasion = None\<rparr>) \<noteq> must_include \<lparr>preferred_strength = None, preferred_flavors = None, must_include = Some [''gin''],
               must_exclude = None, glass_type = None, preparation_method = None\<rparr>"
  by (simp add: enhanceSearchArgs_fields or_empty_def)

text \<open>
  C5, amended. A caller-supplied \<open>preferred_strength\<close>, \<open>glass_type\<close> or
  \<open>preparation_method\<close> that is a non-empty string, and a caller-supplied
  \<open>preferred_flavors\<close> array, are in the output as the caller gave them, whatever was
  parsed. Parsed ingredients and exclusions, when there are any, are appended after the
  caller's \<open>must_include\<close> and \<open>must_exclude\<close> entries (an absent list counting as empty), and
  when there are none the two fields are the caller's. Every other property of the
  arguments is copied. In particular, \<open>preferred_strength: "strong"\<close> with a parsed strength
  of \<open>"light"\<close> stays \<open>"strong"\<close>.
\<close>

theorem enhance_explicit_wins:
  fixes args :: "'z SearchArgs_scheme"
  shows "(truthy (preferred_strength args) \<longrightarrow>
            preferred_strength (enhanceSearchArgs args pq) = preferred_strength args)
       \<and> (preferred_flavors args \<noteq> None \<longrightarrow>
            preferred_flavors (enhanceSearchArgs args pq) = preferred_flavors args)
       \<and> (truthy (glass_type args) \<longrightarrow>
            glass_type (enhanceSearchArgs args pq) = glass_type args)
       \<and> (truthy (preparation_method args) \<longrightarrow>
            preparation_method (enhanceSearchArgs args pq) = preparation_method args)
       \<and> (ingredients pq \<noteq> [] \<longrightarrow>
            must_include (enhanceSearchArgs args pq)
              = Some (or_empty (must_include args) @ ingredients pq))
       \<and> (ingredients pq = [] \<longrightarrow>
            must_include (enhanceSearchArgs args pq) = must_include args)
       \<and> (excludes pq \<noteq> [] \<longrightarrow>
            must_exclude (enhanceSearchArgs args pq)
              = Some (or_empty (must_exclude args) @ excludes pq))
       \<and> (excludes pq = [] \<longrightarrow>
            must_exclude (enhanceSearchArgs args pq) = must_exclude args)
       \<and> SearchArgs.more (enhanceSearchArgs args pq) = SearchArgs.more args
       \<and> preferred_strength
            (enhanceSearchArgs (args\<lparr>preferred_strength := Some ''strong''\<rparr>)
                               (pq\<lparr>strength := Some ''light''\<rparr>)) = Some ''strong''"
  by (simp add: enhanceSearchArgs_fields truthy_def)

theorem enhance_explicit_wins_witness:
  "truthy (preferred_strength \<lparr>preferred_strength = Some ''strong'', preferred_flavors = Some [''sweet''],
               must_include = Some [''gin''], must_exclude = None, glass_type = Some ''coupe'',
               preparation_method = Some ''shake''\<rparr>)
   \<and> preferred_flavors \<lparr>preferred_strength = Some ''strong'', preferred_flavors = Some [''sweet''],
               must_include = Some [''gin''], must_exclude = None, glass_type = Some ''coupe'',
               preparation_method = Some ''shake''\<rparr> \<noteq> None
   \<and> truthy (glass_type \<lparr>preferred_strength = Some ''strong'', preferred_flavors = Some [''sweet''],
               must_include = Some [''gin''], must_exclude = None, glass_type = Some ''coupe'',
               preparation_method = Some ''shake''\<rparr>)
   \<and> truthy (preparation_method \<lparr>preferred_strength = Some ''strong'', preferred_flavors = Some [''sweet''],
               must_include = Some [''gin''], must_exclude = None, glass_type = Some ''coupe'',
               preparation_method = Some ''shake''\<rparr>)
   \<and> ingredients \<lparr>strength = Some ''light'', flavors = [''bitter''], spirit = Some ''gin'',
               glass = Some ''martini'', excludes = [''lime''], ingredients = [''campari''],
               method' = Some ''stir'', difficulty = Some ''easy'', mood = None,
               occasion = None\<rparr> \<noteq> []
   \<and> excludes \<lparr>strength = Some ''light'', flavors = [''bitter''], spirit = Some ''gin'',
               glass = Some ''martini'', excludes = [''lime''], ingredients = [''campari''],
               method' = Some ''stir'', difficulty = Some ''easy'', mood = None,
               occasion = None\<rparr> \<noteq> []
   \<and> ingredients \<lparr>strength = None, flavors = [], spirit = None, glass = None, excludes = [],
               ingredients = [], method' = None, difficulty = None, mood = None,
               occasion = None\<rparr> = []
   \<and> excludes \<lparr>strength = None, flavors = [], spirit = None, glass = None, excludes = [],
               ingredients = [], method' = None, difficulty = None, mood = None,
               occasion = None\<rparr> = []
   \<and> enhanceSearchArgs \<lparr>preferred_strength = Some ''strong'', preferred_flavors = Some [''sweet''],
               must_include = Some [''gin''], must_exclude = None, glass_type = Some ''coupe'',
               preparation_method = Some ''shake''\<rparr> \<lparr>strength = Some ''light'', flavors = [''bitter''], spirit = Some ''gin'',
               glass = Some ''martini'', excludes = [''lime''], ingredients = [''campari''],
               method' = Some ''stir'', difficulty = Some ''easy'', mood = None,
               occasion = None\<rparr> = \<lparr>preferred_strength = Some ''strong'', preferred_flavors = Some [''sweet''],
               must_include = Some [''gin'', ''campari''], must_exclude = Some [''lime''],
               glass_type = Some ''coupe'', preparation_method = Some ''shake''\<rparr>
   \<and> enhanceSearchArgs \<lparr>preferred_strength = Some ''strong'', preferred_flavors = Some [''sweet''],
               must_include = Some [''gin''], must_exclude = None, glass_type = Some ''coupe'',
               preparation_method = Some ''shake''\<rparr> \<lparr>strength = None, flavors = [], spirit = None, glass = None, excludes = [],
               ingredients = [], method' = None, difficulty = None, mood = None,
               occasion = None\<rparr> = \<lparr>preferred_strength = Some ''strong'', preferred_flavors = Some [''sweet''],
               must_include = Some [''gin''], must_exclude = None, glass_type = Some ''coupe'',
               preparation_method = Some ''shake''\<rparr>"
  using enhance_explicit_wins[where args = "\<lparr>preferred_strength = Some ''strong'', preferred_flavors = Some [''sweet''],
               must_include = Some [''gin''], must_exclude = None, glass_type = Some ''coupe'',
               preparation_method = Some ''shake''\<rparr>" and pq = "\<lparr>strength = Some ''light'', flavors = [''bitter''], spirit = Some ''gin'',
               glass = Some ''martini'', excludes = [''lime''], ingredients = [''campari''],
               method' = Some ''stir'', difficulty = Some ''easy'', mood = None,
               occasion = None\<rparr>"]
    enhance_explicit_wins[where args = "\<lparr>preferred_strength = Some ''strong'', preferred_flavors = Some [''sweet''],
               must_include = Some [''gin''], must_exclude = None, glass_type = Some ''coupe'',
               preparation_method = Some ''shake''\<rparr>" and pq = "\<lparr>strength = None, flavors = [], spirit = None, glass = None, excludes = [],
               ingredients = [], method' = None, difficulty = None, mood = None,
               occasion = None\<rparr>"]
  by (simp add: truthy_def or_empty_def SearchArgs.equality)

end
